theory Spec2Isabelle
  imports Complex_Main "HOL-Library.Multiset" "HOL-Library.AList"
begin

section \<open>The quiz engine of app.js\<close>

text \<open>
  A shallow embedding of \<^verbatim>\<open>src/app.js\<close>: the random utilities (\<^verbatim>\<open>shuffle\<close>,
  \<^verbatim>\<open>weightedPick\<close>), the choice shuffler, the exam builder, the session handlers and the
  loader of the persisted statistics.

  Conventions of the embedding.
  \<^item> A JavaScript number is a \<^typ>\<open>real\<close> (an \<^typ>\<open>int\<close> where the code only counts or
    indexes); \<^verbatim>\<open>NaN\<close> is written out where the code can meet it, infinities and rounding
    are not modelled.
  \<^item> A value that may be \<^verbatim>\<open>undefined\<close> is an \<^typ>\<open>'a option\<close>, \<^term>\<open>None\<close> being
    \<^verbatim>\<open>undefined\<close>; a computation that may throw returns \<open>js_error + 'a\<close>, \<^term>\<open>Inl\<close>
    being the exception.
  \<^item> \<^verbatim>\<open>Math.random()\<close> returns a number in \<open>[0, 1)\<close>: the type \<open>rand01\<close>. The values it
    returns during one handler are a function \<open>rnd\<close> of the call's number, and every
    function that draws takes the number \<open>k\<close> of the next call and returns the new one.
  \<^item> \<^verbatim>\<open>QUESTIONS\<close> (imported from \<^verbatim>\<open>questions.js\<close>) and \<^verbatim>\<open>JSON.parse\<close> are parameters;
    \<^verbatim>\<open>Date.now()\<close> is the time \<open>now\<close> an event comes with.
  \<^item> The functions work on values. Where the source writes into an array, the choice
    shuffler is given a second time with its arrays in a store, to see which array is
    written.
  \<^item> Of the page only the screen shown is kept, as far as it decides which click handlers
    exist; category names are taken not to be names of \<^verbatim>\<open>Object.prototype\<close>.
\<close>

datatype js_error = TypeError | SyntaxError

subsection \<open>Data\<close>

record question =
  q_id :: string
  q_category :: string
  q_difficulty :: string
  q_question :: string
  q_choices :: "string list"
  q_answerIndex :: int
  q_explanation :: string

record answer =
  a_id :: string
  a_chosenIndex :: int
  a_correct :: bool
  a_category :: string

record category_stat =
  c_correct :: int
  c_total :: int

record attempt =
  at_ts :: int
  at_score :: int
  at_total :: int
  at_mode :: string
  at_focus :: string

record stats =
  st_best :: "(int \<times> int) option"
  st_history :: "attempt list"
  st_perCategory :: "string \<rightharpoonup> category_stat"

subsection \<open>Helpers\<close>

definition clamp :: "real \<Rightarrow> real \<Rightarrow> real \<Rightarrow> real" where
  "clamp n mn mx = max mn (min mx n)"

text \<open>\<^verbatim>\<open>clampInt\<close> is only applied to a count, so \<^verbatim>\<open>Math.trunc\<close> is the identity.\<close>

definition clampInt :: "int \<Rightarrow> int \<Rightarrow> int \<Rightarrow> int" where
  "clampInt n mn mx = max mn (min mx n)"

text \<open>\<^verbatim>\<open>xs[i]\<close>: \<^verbatim>\<open>undefined\<close> outside the array.\<close>

definition at_index :: "'a list \<Rightarrow> int \<Rightarrow> 'a option" where
  "at_index xs i = (if 0 \<le> i \<and> i < int (length xs) then Some (xs ! nat i) else None)"

text \<open>\<^verbatim>\<open>xs.findIndex(P)\<close>: the first index whose element satisfies \<open>P\<close>, or \<open>-1\<close>.\<close>

fun find_from :: "('a \<Rightarrow> bool) \<Rightarrow> nat \<Rightarrow> 'a list \<Rightarrow> int" where
  "find_from P i [] = - 1"
| "find_from P i (x # xs) = (if P x then int i else find_from P (Suc i) xs)"

definition findIndex :: "('a \<Rightarrow> bool) \<Rightarrow> 'a list \<Rightarrow> int" where
  "findIndex P xs = find_from P 0 xs"

subsection \<open>Random utilities\<close>

typedef rand01 = "{r::real. 0 \<le> r \<and> r < 1}"
  by (rule exI [of _ 0]) simp

text \<open>\<^verbatim>\<open>Math.floor(Math.random() * n)\<close>, for the value \<open>u\<close> that \<^verbatim>\<open>Math.random()\<close> returned.\<close>

definition rand_index :: "rand01 \<Rightarrow> nat \<Rightarrow> nat" where
  "rand_index u n = nat \<lfloor>Rep_rand01 u * real n\<rfloor>"

text \<open>\<^verbatim>\<open>[a[i], a[j]] = [a[j], a[i]]\<close>: both reads come before both writes.\<close>

definition swap :: "'a list \<Rightarrow> nat \<Rightarrow> nat \<Rightarrow> 'a list" where
  "swap a i j = a[i := a ! j, j := a ! i]"

text \<open>
  The loop of \<^verbatim>\<open>shuffle\<close>, \<^verbatim>\<open>for (let i = a.length - 1; i > 0; i--)\<close>: the argument is
  the current \<open>i\<close>, and the loop ends at \<open>i = 0\<close> (an empty array starts at \<open>-1\<close>, which ends
  it as well).
\<close>

fun shuffle_loop :: "(nat \<Rightarrow> rand01) \<Rightarrow> nat \<Rightarrow> nat \<Rightarrow> 'a list \<Rightarrow> 'a list \<times> nat" where
  "shuffle_loop rnd k 0 a = (a, k)"
| "shuffle_loop rnd k (Suc i) a =
     (let j = rand_index (rnd k) (Suc i + 1)
      in shuffle_loop rnd (k + 1) i (swap a (Suc i) j))"

definition shuffle :: "(nat \<Rightarrow> rand01) \<Rightarrow> nat \<Rightarrow> 'a list \<Rightarrow> 'a list \<times> nat" where
  "shuffle rnd k arr = shuffle_loop rnd k (length arr - 1) arr"

subsection \<open>Choice shuffler\<close>

text \<open>
  \<^verbatim>\<open>indexed\<close> pairs every choice with its index; the result is \<^verbatim>\<open>{ ...q, choices, answerIndex }\<close>,
  a new object with the other fields of \<open>q\<close>.
\<close>

definition shuffleQuestionChoices ::
  "(nat \<Rightarrow> rand01) \<Rightarrow> nat \<Rightarrow> question \<Rightarrow> question \<times> nat" where
  "shuffleQuestionChoices rnd k q =
     (let indexed = zip (q_choices q) [0 ..< length (q_choices q)];
          (shuffled, k') = shuffle rnd k indexed;
          newChoices = map fst shuffled;
          newAnswerIndex = findIndex (\<lambda>x. int (snd x) = q_answerIndex q) shuffled
      in (q\<lparr>q_choices := newChoices, q_answerIndex := newAnswerIndex\<rparr>, k'))"

subsection \<open>The arrays of the choice shuffler, in a store\<close>

text \<open>
  \<^verbatim>\<open>shuffle\<close> swaps the elements of an array in place, so whether the caller's array changes
  depends on which array that is. Here the arrays live in a store and are named by their
  address, their position in it; a new array gets the next address. One store holds the
  arrays of texts (\<^verbatim>\<open>q.choices\<close>, \<^verbatim>\<open>newChoices\<close>), another those of \<^verbatim>\<open>{ text, idx }\<close> pairs
  (\<^verbatim>\<open>indexed\<close>, and the copy \<^verbatim>\<open>a\<close> that \<^verbatim>\<open>shuffle\<close> works on).
\<close>

type_synonym 'a store = "'a list list"

definition new_array :: "'a list \<Rightarrow> 'a store \<Rightarrow> nat \<times> 'a store" where
  "new_array xs h = (length h, h @ [xs])"

text \<open>\<^verbatim>\<open>[a[i], a[j]] = [a[j], a[i]]\<close> on the array at address \<open>a\<close>.\<close>

definition swap_in :: "nat \<Rightarrow> nat \<Rightarrow> nat \<Rightarrow> 'a store \<Rightarrow> 'a store" where
  "swap_in a i j h = h[a := swap (h ! a) i j]"

fun shuffle_loop_in ::
  "(nat \<Rightarrow> rand01) \<Rightarrow> nat \<Rightarrow> nat \<Rightarrow> nat \<Rightarrow> 'a store \<Rightarrow> 'a store \<times> nat" where
  "shuffle_loop_in rnd k 0 a h = (h, k)"
| "shuffle_loop_in rnd k (Suc i) a h =
     (let j = rand_index (rnd k) (Suc i + 1)
      in shuffle_loop_in rnd (k + 1) i a (swap_in a (Suc i) j h))"

text \<open>\<^verbatim>\<open>shuffle(arr)\<close>: \<^verbatim>\<open>arr.slice()\<close> is a new array \<open>a\<close>, the loop writes to \<open>a\<close>, and \<open>a\<close> is returned.\<close>

definition shuffle_in ::
  "(nat \<Rightarrow> rand01) \<Rightarrow> nat \<Rightarrow> nat \<Rightarrow> 'a store \<Rightarrow> nat \<times> 'a store \<times> nat" where
  "shuffle_in rnd k arr h =
     (let (a, h) = new_array (h ! arr) h;
          (h, k') = shuffle_loop_in rnd k (length (h ! a) - 1) a h
      in (a, h, k'))"

text \<open>
  \<^verbatim>\<open>shuffleQuestionChoices(q)\<close> for a question whose \<^verbatim>\<open>choices\<close> is the array at address
  \<open>choices\<close> of the store \<open>texts\<close>: it returns the address of \<^verbatim>\<open>newChoices\<close> and
  \<^verbatim>\<open>newAnswerIndex\<close>, the two fields of the new object that differ from those of \<open>q\<close>. No
  statement assigns to a field of \<open>q\<close>.
\<close>

definition shuffleQuestionChoices_in ::
  "(nat \<Rightarrow> rand01) \<Rightarrow> nat \<Rightarrow> nat \<Rightarrow> int \<Rightarrow> string store \<Rightarrow> (string \<times> nat) store \<Rightarrow>
   (nat \<times> int) \<times> string store \<times> (string \<times> nat) store \<times> nat" where
  "shuffleQuestionChoices_in rnd k choices answerIndex texts pairs =
     (let (indexed, pairs) =
            new_array (zip (texts ! choices) [0 ..< length (texts ! choices)]) pairs;
          (shuffled, pairs, k') = shuffle_in rnd k indexed pairs;
          (newChoices, texts) = new_array (map fst (pairs ! shuffled)) texts;
          newAnswerIndex = findIndex (\<lambda>x. int (snd x) = answerIndex) (pairs ! shuffled)
      in ((newChoices, newAnswerIndex), texts, pairs, k'))"

subsection \<open>Weighted pick\<close>

text \<open>
  \<^verbatim>\<open>Number(weightFn(it))\<close> is a \<^typ>\<open>real option\<close>, \<^term>\<open>None\<close> being \<^verbatim>\<open>NaN\<close> (what
  \<^verbatim>\<open>Number\<close> makes of a value that is no number). \<^verbatim>\<open>x || 1\<close> is \<open>1\<close> for the falsy numbers,
  \<open>0\<close> and \<^verbatim>\<open>NaN\<close>, and \<open>x\<close> otherwise.
\<close>

definition or_one :: "real option \<Rightarrow> real" where
  "or_one w = (case w of None \<Rightarrow> 1 | Some x \<Rightarrow> if x = 0 then 1 else x)"

text \<open>The array \<^verbatim>\<open>weights\<close> of \<^verbatim>\<open>weightedPick\<close>.\<close>

definition pick_weights :: "'a list \<Rightarrow> ('a \<Rightarrow> real option) \<Rightarrow> real list" where
  "pick_weights items weightFn = map (\<lambda>it. max (1 / 10000) (or_one (weightFn it))) items"

text \<open>
  The loop of \<^verbatim>\<open>weightedPick\<close> over \<^verbatim>\<open>items[i]\<close> and \<^verbatim>\<open>weights[i]\<close>; \<^term>\<open>None\<close> when it
  runs to the end without returning.
\<close>

fun pick_scan :: "'a list \<Rightarrow> real list \<Rightarrow> real \<Rightarrow> 'a option" where
  "pick_scan (x # xs) (w # ws) r =
     (let r' = r - w in if r' \<le> 0 then Some x else pick_scan xs ws r')"
| "pick_scan _ _ r = None"

text \<open>
  No statement of \<^verbatim>\<open>weightedPick\<close> throws: with no items the loop does not run and
  \<^verbatim>\<open>items[items.length - 1]\<close> is \<^verbatim>\<open>items[-1]\<close>, which is \<^verbatim>\<open>undefined\<close>.

  The sum, the product and the subtractions are those of the reals, where the source
  rounds to doubles (and can meet an infinite weight). Rounding can change which item is
  picked, not that the pick is an item of the list, which is all that the results on
  \<^verbatim>\<open>weightedPick\<close> and on the exam builder use of it.
\<close>

definition weightedPick ::
  "'a list \<Rightarrow> ('a \<Rightarrow> real option) \<Rightarrow> rand01 \<Rightarrow> js_error + 'a option" where
  "weightedPick items weightFn u =
     (let weights = pick_weights items weightFn;
          sum = foldl (+) 0 weights;
          r = Rep_rand01 u * sum
      in case pick_scan items weights r of
           Some it \<Rightarrow> Inr (Some it)
         | None \<Rightarrow> Inr (at_index items (int (length items) - 1)))"

subsection \<open>Statistics\<close>

text \<open>
  \<^verbatim>\<open>DEFAULT_BASELINE\<close>, the seed of \<^verbatim>\<open>stats.perCategory\<close>: its entries in the order of the
  source, and the object as a map. \<open>default_stats\<close> is what \<^verbatim>\<open>loadStats\<close> returns when
  nothing is stored.
\<close>

definition DEFAULT_BASELINE_entries :: "(string \<times> category_stat) list" where
  "DEFAULT_BASELINE_entries =
     [(''privacy_security'', \<lparr>c_correct = 19, c_total = 22\<rparr>),
      (''network'', \<lparr>c_correct = 12, c_total = 14\<rparr>),
      (''setup_backup_restore'', \<lparr>c_correct = 14, c_total = 16\<rparr>),
      (''apple_account_icloud'', \<lparr>c_correct = 5, c_total = 7\<rparr>)]"

definition DEFAULT_BASELINE :: "string \<rightharpoonup> category_stat" where
  "DEFAULT_BASELINE = map_of DEFAULT_BASELINE_entries"

definition default_stats :: stats where
  "default_stats = \<lparr>st_best = None, st_history = [], st_perCategory = DEFAULT_BASELINE\<rparr>"

subsection \<open>Exam builder\<close>

text \<open>
  The object \<^verbatim>\<open>weights\<close>: one entry for every entry of \<^verbatim>\<open>stats.perCategory\<close>.
\<close>

definition category_weights :: "stats \<Rightarrow> string \<rightharpoonup> real" where
  "category_weights stats =
     (\<lambda>cat. case st_perCategory stats cat of
        None \<Rightarrow> None
      | Some v \<Rightarrow>
          (let ratio = (if c_total v > 0 then real_of_int (c_correct v) / real_of_int (c_total v)
                        else 0.5)
           in Some (clamp (1.8 - ratio) 0.6 1.6)))"

text \<open>The weight function handed to \<^verbatim>\<open>weightedPick\<close>; \<^verbatim>\<open>weights[c] ?? 1\<close> is a number.\<close>

definition pick_weight :: "string \<Rightarrow> (string \<rightharpoonup> real) \<Rightarrow> question \<Rightarrow> real option" where
  "pick_weight focus weights item =
     (if focus = ''smart''
      then (case weights (q_category item) of None \<Rightarrow> Some 1 | Some w \<Rightarrow> Some w)
      else Some 1)"

definition attemptsLimit :: nat where
  "attemptsLimit = 5000"

text \<open>
  The \<^verbatim>\<open>while\<close> loop over \<^verbatim>\<open>picked\<close>, \<^verbatim>\<open>usedIds\<close> and \<^verbatim>\<open>attempts\<close>; the requested \<^verbatim>\<open>count\<close> is
  written \<open>cnt\<close>. Reading \<^verbatim>\<open>q.id\<close> of an \<^verbatim>\<open>undefined\<close> pick would throw a \<^verbatim>\<open>TypeError\<close>.
\<close>

function pick_loop ::
  "(nat \<Rightarrow> rand01) \<Rightarrow> int \<Rightarrow> (question \<Rightarrow> real option) \<Rightarrow> question list \<Rightarrow>
   question list \<Rightarrow> string set \<Rightarrow> nat \<Rightarrow> nat \<Rightarrow>
   js_error + (question list \<times> string set \<times> nat)" where
  "pick_loop rnd cnt weightFn pool picked usedIds attempts k =
     (if int (length picked) < cnt \<and> attempts < attemptsLimit then
        (let candidates = filter (\<lambda>q. q_id q \<notin> usedIds) pool in
         if candidates = [] then Inr (picked, usedIds, k)
         else (case weightedPick candidates weightFn (rnd k) of
                 Inl e \<Rightarrow> Inl e
               | Inr None \<Rightarrow> Inl TypeError
               | Inr (Some q) \<Rightarrow>
                   pick_loop rnd cnt weightFn pool (picked @ [q]) (insert (q_id q) usedIds)
                     (attempts + 1) (k + 1)))
      else Inr (picked, usedIds, k))"
  by pat_completeness auto
termination
  by (relation "measure (\<lambda>(rnd, cnt, weightFn, pool, picked, usedIds, attempts, k).
        attemptsLimit - attempts)") auto

declare pick_loop.simps [simp del]

text \<open>\<^verbatim>\<open>picked.map(q => shuffleQuestionChoices(q))\<close>, the draws in the order of the list.\<close>

fun shuffle_all :: "(nat \<Rightarrow> rand01) \<Rightarrow> nat \<Rightarrow> question list \<Rightarrow> question list \<times> nat" where
  "shuffle_all rnd k [] = ([], k)"
| "shuffle_all rnd k (q # qs) =
     (let (q', k1) = shuffleQuestionChoices rnd k q;
          (qs', k2) = shuffle_all rnd k1 qs
      in (q' # qs', k2))"

text \<open>The pool after the focus filter, and after the widening.\<close>

definition focus_pool :: "question list \<Rightarrow> string \<Rightarrow> question list" where
  "focus_pool QUESTIONS focus =
     (let pool = QUESTIONS
      in if focus \<noteq> ''smart'' \<and> focus \<noteq> ''all''
         then filter (\<lambda>q. q_category q = focus) pool else pool)"

definition exam_pool :: "question list \<Rightarrow> int \<Rightarrow> string \<Rightarrow> question list" where
  "exam_pool QUESTIONS cnt focus =
     (let pool = focus_pool QUESTIONS focus
      in if int (length pool) < cnt then QUESTIONS else pool)"

text \<open>The fill of a short \<^verbatim>\<open>picked\<close> from the unused questions of the pool, in their order.\<close>

definition fill_remainder ::
  "int \<Rightarrow> question list \<Rightarrow> question list \<Rightarrow> string set \<Rightarrow> question list" where
  "fill_remainder cnt pool picked usedIds =
     (if int (length picked) < cnt
      then (let remaining = filter (\<lambda>q. q_id q \<notin> usedIds) pool
            in picked @ take (nat (cnt - int (length picked))) remaining)
      else picked)"

definition buildExamQuestions ::
  "question list \<Rightarrow> (nat \<Rightarrow> rand01) \<Rightarrow> int \<Rightarrow> string \<Rightarrow> stats \<Rightarrow> js_error + question list" where
  "buildExamQuestions QUESTIONS rnd cnt focus stats =
     (let pool = exam_pool QUESTIONS cnt focus;
          weights = category_weights stats
      in case pick_loop rnd cnt (pick_weight focus weights) pool [] {} 0 0 of
           Inl e \<Rightarrow> Inl e
         | Inr (picked, usedIds, k) \<Rightarrow>
             Inr (fst (shuffle_all rnd k (fill_remainder cnt pool picked usedIds))))"

subsection \<open>Session\<close>

text \<open>
  The global \<^verbatim>\<open>state\<close>, and with it what \<^verbatim>\<open>examEl\<close> shows: the click handlers that exist
  are those of the screen rendered last. A question card keeps the question \<open>q\<close> that its
  handlers closed over.
\<close>

datatype screen = NoExam | QuestionCard question | Results | Review

record state =
  s_mode :: string
  s_focus :: string
  s_total :: int
  s_questions :: "question list"
  s_index :: int
  s_answers :: "answer list"
  s_locked :: bool
  s_stats :: stats
  s_screen :: screen

text \<open>The initial \<^verbatim>\<open>state\<close>; \<open>loaded\<close> is what \<^verbatim>\<open>loadStats()\<close> returned.\<close>

definition initial_state :: "stats \<Rightarrow> state" where
  "initial_state loaded =
     \<lparr>s_mode = ''exam'', s_focus = ''smart'', s_total = 17, s_questions = [], s_index = 0,
      s_answers = [], s_locked = False, s_stats = loaded, s_screen = NoExam\<rparr>"

text \<open>\<^verbatim>\<open>state.answers.reduce((acc, a) => acc + (a.correct ? 1 : 0), 0)\<close>\<close>

definition correctCount :: "answer list \<Rightarrow> int" where
  "correctCount answers = foldl (\<lambda>acc a. acc + (if a_correct a then 1 else 0)) 0 answers"

text \<open>The body of the loop of \<^verbatim>\<open>renderResults\<close> over \<^verbatim>\<open>state.answers\<close>.\<close>

definition record_answer :: "(string \<rightharpoonup> category_stat) \<Rightarrow> answer \<Rightarrow> (string \<rightharpoonup> category_stat)" where
  "record_answer perCategory a =
     (let cat = a_category a;
          v = (case perCategory cat of None \<Rightarrow> \<lparr>c_correct = 0, c_total = 0\<rparr> | Some v \<Rightarrow> v);
          v = v\<lparr>c_total := c_total v + 1\<rparr>;
          v = (if a_correct a then v\<lparr>c_correct := c_correct v + 1\<rparr> else v)
      in perCategory(cat \<mapsto> v))"

text \<open>
  \<^verbatim>\<open>renderResults\<close>, with \<open>now\<close> for \<^verbatim>\<open>Date.now()\<close>: it records the attempt, updates the best
  score and the per-category counts, and shows the results.
\<close>

definition renderResults :: "int \<Rightarrow> state \<Rightarrow> state" where
  "renderResults now s =
     (let total = s_total s;
          safeCorrect = clampInt (correctCount (s_answers s)) 0 total;
          attempt = \<lparr>at_ts = now, at_score = safeCorrect, at_total = total,
                     at_mode = s_mode s, at_focus = s_focus s\<rparr>;
          stats = s_stats s;
          stats = stats\<lparr>st_history := st_history stats @ [attempt]\<rparr>;
          stats = (if (case st_best stats of
                         None \<Rightarrow> True
                       | Some (bscore, btotal) \<Rightarrow>
                           safeCorrect > bscore \<or> (safeCorrect = bscore \<and> total > btotal))
                   then stats\<lparr>st_best := Some (safeCorrect, total)\<rparr> else stats);
          stats = stats\<lparr>st_perCategory := foldl record_answer (st_perCategory stats) (s_answers s)\<rparr>
      in s\<lparr>s_stats := stats, s_screen := Results\<rparr>)"

definition renderQuestion :: "int \<Rightarrow> state \<Rightarrow> state" where
  "renderQuestion now s =
     (case at_index (s_questions s) (s_index s) of
        None \<Rightarrow> renderResults now s
      | Some q \<Rightarrow> s\<lparr>s_screen := QuestionCard q\<rparr>)"

text \<open>
  \<^verbatim>\<open>startExam\<close>: \<open>mode\<close>, \<open>cnt\<close> and \<open>focus\<close> are the values of the form
  (\<^verbatim>\<open>parseInt(countEl.value, 10)\<close> taken to be an integer), \<open>rnd\<close> the random draws of the build.
\<close>

definition startExam ::
  "question list \<Rightarrow> int \<Rightarrow> string \<Rightarrow> int \<Rightarrow> string \<Rightarrow> (nat \<Rightarrow> rand01) \<Rightarrow> state \<Rightarrow> js_error + state" where
  "startExam QUESTIONS now mode cnt focus rnd s =
     (let s = s\<lparr>s_mode := mode, s_total := cnt, s_focus := focus\<rparr>
      in case buildExamQuestions QUESTIONS rnd (s_total s) (s_focus s) (s_stats s) of
           Inl e \<Rightarrow> Inl e
         | Inr qs \<Rightarrow>
             Inr (renderQuestion now
                    (s\<lparr>s_questions := qs, s_index := 0, s_answers := [], s_locked := False\<rparr>)))"

definition onChoose :: "int \<Rightarrow> int \<Rightarrow> state \<Rightarrow> state" where
  "onChoose now chosenIndex s =
     (case at_index (s_questions s) (s_index s) of
        None \<Rightarrow> s
      | Some q \<Rightarrow>
          if list_ex (\<lambda>a. a_id a = q_id q) (s_answers s) then s
          else (let correct = (chosenIndex = q_answerIndex q)
                in renderQuestion now
                     (s\<lparr>s_answers := s_answers s @
                          [\<lparr>a_id = q_id q, a_chosenIndex = chosenIndex, a_correct = correct,
                            a_category = q_category q\<rparr>]\<rparr>)))"

text \<open>The click handlers of \<^verbatim>\<open>backBtn\<close> and \<^verbatim>\<open>nextBtn\<close> on the card of question \<open>q\<close>.\<close>

definition onBack :: "int \<Rightarrow> state \<Rightarrow> state" where
  "onBack now s = renderQuestion now (s\<lparr>s_index := max 0 (s_index s - 1)\<rparr>)"

definition onNext :: "int \<Rightarrow> question \<Rightarrow> state \<Rightarrow> state" where
  "onNext now q s =
     (let currentAnswered = list_ex (\<lambda>a. a_id a = q_id q) (s_answers s)
      in if s_mode s = ''exam'' \<and> \<not> currentAnswered then s
         else renderQuestion now (s\<lparr>s_index := s_index s + 1\<rparr>))"

text \<open>The handler of \<^verbatim>\<open>reviewBtn\<close>; \<^verbatim>\<open>renderReview\<close> writes nothing to \<^verbatim>\<open>state\<close>.\<close>

definition onReview :: "state \<Rightarrow> state" where
  "onReview s = s\<lparr>s_index := 0, s_screen := Review\<rparr>"

text \<open>The handler of \<^verbatim>\<open>resetStatsBtn\<close>: \<^verbatim>\<open>loadStats()\<close> after the key was removed.\<close>

definition onResetStats :: "state \<Rightarrow> state" where
  "onResetStats s = s\<lparr>s_stats := default_stats, s_screen := NoExam\<rparr>"

text \<open>
  The events of the page. \<^verbatim>\<open>startBtn\<close> and \<^verbatim>\<open>resetStatsBtn\<close> are always there, and the
  results and the review have a button that calls \<^verbatim>\<open>startExam\<close> as well; the other buttons
  exist on their screen only, and \<^verbatim>\<open>backToResultsBtn\<close> calls \<^verbatim>\<open>renderResults\<close>.
\<close>

datatype event =
    Start string int string "nat \<Rightarrow> rand01"
  | Choose int
  | Back
  | Next
  | ReviewAnswers
  | BackToResults
  | ResetStats

fun step :: "question list \<Rightarrow> int \<Rightarrow> event \<Rightarrow> state \<Rightarrow> js_error + state" where
  "step QUESTIONS now (Start mode cnt focus rnd) s = startExam QUESTIONS now mode cnt focus rnd s"
| "step QUESTIONS now (Choose chosenIndex) s =
     (case s_screen s of QuestionCard q \<Rightarrow> Inr (onChoose now chosenIndex s) | _ \<Rightarrow> Inr s)"
| "step QUESTIONS now Back s =
     (case s_screen s of QuestionCard q \<Rightarrow> Inr (onBack now s) | _ \<Rightarrow> Inr s)"
| "step QUESTIONS now Next s =
     (case s_screen s of QuestionCard q \<Rightarrow> Inr (onNext now q s) | _ \<Rightarrow> Inr s)"
| "step QUESTIONS now ReviewAnswers s =
     (case s_screen s of Results \<Rightarrow> Inr (onReview s) | _ \<Rightarrow> Inr s)"
| "step QUESTIONS now BackToResults s =
     (case s_screen s of Review \<Rightarrow> Inr (renderResults now s) | _ \<Rightarrow> Inr s)"
| "step QUESTIONS now ResetStats s = Inr (onResetStats s)"

text \<open>A sequence of events, each with the time it happens at; an exception ends it.\<close>

fun run :: "question list \<Rightarrow> (int \<times> event) list \<Rightarrow> state \<Rightarrow> js_error + state" where
  "run QUESTIONS [] s = Inr s"
| "run QUESTIONS ((now, e) # es) s =
     (case step QUESTIONS now e s of Inl err \<Rightarrow> Inl err | Inr s' \<Rightarrow> run QUESTIONS es s')"

text \<open>The events of one session: all but a new start and the reset of the statistics.\<close>

fun session_event :: "event \<Rightarrow> bool" where
  "session_event (Start mode cnt focus rnd) = False"
| "session_event ResetStats = False"
| "session_event e = True"

text \<open>
  What a question card shows is the question at \<^verbatim>\<open>state.index\<close>: every handler that changes
  the index renders again.
\<close>

definition card_ok :: "state \<Rightarrow> bool" where
  "card_ok s =
     (case s_screen s of
        QuestionCard q \<Rightarrow> at_index (s_questions s) (s_index s) = Some q
      | _ \<Rightarrow> True)"

text \<open>
  One session, from \<^verbatim>\<open>startExam\<close> with the count \<open>cnt\<close> and the history \<open>h0\<close> on: the attempts
  recorded since carry the count and the clamped score of the answers, and there are some
  exactly when the results or the review are shown.
\<close>

definition session_inv :: "int \<Rightarrow> attempt list \<Rightarrow> state \<Rightarrow> bool" where
  "session_inv cnt h0 s =
     (s_total s = cnt \<and>
      (\<exists>new. st_history (s_stats s) = h0 @ new \<and>
         list_all (\<lambda>a. at_total a = cnt \<and>
                        at_score a = clampInt (correctCount (s_answers s)) 0 cnt) new \<and>
         (case s_screen s of
            QuestionCard q \<Rightarrow> new = []
          | NoExam \<Rightarrow> False
          | _ \<Rightarrow> new \<noteq> [])))"

subsection \<open>Persisted statistics\<close>

text \<open>
  The values \<^verbatim>\<open>JSON.parse\<close> returns. An array carries, beside its elements, the named
  properties assigned to it later (none after parsing); an object is the list of its
  entries, read by key.
\<close>

datatype json =
    JNull
  | JBool bool
  | JNum real
  | JStr string
  | JArr "json list" "(string \<times> json) list"
  | JObj "(string \<times> json) list"

text \<open>
  \<^verbatim>\<open>v.k\<close> for one of the keys \<^verbatim>\<open>best\<close>, \<^verbatim>\<open>history\<close> and \<^verbatim>\<open>perCategory\<close>, which no prototype
  defines: reading a property of \<^verbatim>\<open>null\<close> throws, a primitive has none.
\<close>

fun get_prop :: "json \<Rightarrow> string \<Rightarrow> js_error + json option" where
  "get_prop JNull k = Inl TypeError"
| "get_prop (JObj entries) k = Inr (map_of entries k)"
| "get_prop (JArr elems props) k = Inr (map_of props k)"
| "get_prop v k = Inr None"

text \<open>
  \<^verbatim>\<open>v.k = x\<close> in strict mode (the file is a module): creating a property on a primitive
  throws.
\<close>

fun set_prop :: "json \<Rightarrow> string \<Rightarrow> json \<Rightarrow> js_error + json" where
  "set_prop (JObj entries) k x = Inr (JObj (AList.update k x entries))"
| "set_prop (JArr elems props) k x = Inr (JArr elems (AList.update k x props))"
| "set_prop v k x = Inl TypeError"

text \<open>\<^verbatim>\<open>v.k ??= d\<close>: assigns when \<^verbatim>\<open>v.k\<close> is \<^verbatim>\<open>undefined\<close> or \<^verbatim>\<open>null\<close>.\<close>

definition nullish_assign :: "json \<Rightarrow> string \<Rightarrow> json \<Rightarrow> js_error + json" where
  "nullish_assign v k d =
     (case get_prop v k of
        Inl e \<Rightarrow> Inl e
      | Inr None \<Rightarrow> set_prop v k d
      | Inr (Some JNull) \<Rightarrow> set_prop v k d
      | Inr (Some x) \<Rightarrow> Inr v)"

text \<open>\<^verbatim>\<open>structuredClone(DEFAULT_BASELINE)\<close> and the seeded statistics, as values.\<close>

definition DEFAULT_BASELINE_json :: json where
  "DEFAULT_BASELINE_json =
     JObj (map (\<lambda>(cat, v). (cat, JObj [(''correct'', JNum (real_of_int (c_correct v))),
                                       (''total'', JNum (real_of_int (c_total v)))]))
            DEFAULT_BASELINE_entries)"

definition seeded_default :: json where
  "seeded_default =
     JObj [(''best'', JNull), (''history'', JArr [] []), (''perCategory'', DEFAULT_BASELINE_json)]"

text \<open>
  The body of the \<^verbatim>\<open>try\<close> block of \<^verbatim>\<open>loadStats\<close>. \<^verbatim>\<open>JSON_parse\<close> is the parser, a parameter:
  it returns a value or throws a \<^verbatim>\<open>SyntaxError\<close>.
\<close>

definition loadStats_try :: "(string \<Rightarrow> js_error + json) \<Rightarrow> string \<Rightarrow> js_error + json" where
  "loadStats_try JSON_parse raw =
     (case JSON_parse raw of
        Inl e \<Rightarrow> Inl e
      | Inr parsed \<Rightarrow>
          (case nullish_assign parsed ''best'' JNull of
             Inl e \<Rightarrow> Inl e
           | Inr parsed \<Rightarrow>
               (case nullish_assign parsed ''history'' (JArr [] []) of
                  Inl e \<Rightarrow> Inl e
                | Inr parsed \<Rightarrow>
                    (case nullish_assign parsed ''perCategory'' DEFAULT_BASELINE_json of
                       Inl e \<Rightarrow> Inl e
                     | Inr parsed \<Rightarrow> Inr parsed))))"

text \<open>
  \<^verbatim>\<open>loadStats\<close>: \<open>raw\<close> is what \<^verbatim>\<open>localStorage.getItem\<close> returned, \<^term>\<open>None\<close> for \<^verbatim>\<open>null\<close>;
  \<^verbatim>\<open>!raw\<close> holds for \<^verbatim>\<open>null\<close> and for the empty string. The \<^verbatim>\<open>catch\<close> takes every exception.
\<close>

definition loadStats :: "(string \<Rightarrow> js_error + json) \<Rightarrow> string option \<Rightarrow> js_error + json" where
  "loadStats JSON_parse raw =
     (case raw of
        None \<Rightarrow> Inr seeded_default
      | Some text \<Rightarrow>
          if text = [] then Inr seeded_default
          else (case loadStats_try JSON_parse text of
                  Inl e \<Rightarrow> Inr seeded_default
                | Inr parsed \<Rightarrow> Inr parsed))"

text \<open>
  The shape the rest of the program takes the statistics to have: \<^verbatim>\<open>history\<close> is an array
  (\<^verbatim>\<open>renderResults\<close> calls its \<^verbatim>\<open>push\<close>), \<^verbatim>\<open>perCategory\<close> is an object, \<^verbatim>\<open>best\<close> is \<^verbatim>\<open>null\<close> or
  an object.
\<close>

definition stats_shaped :: "json \<Rightarrow> bool" where
  "stats_shaped v =
     (case v of
        JObj entries \<Rightarrow>
          (case map_of entries ''history'' of Some (JArr elems props) \<Rightarrow> True | _ \<Rightarrow> False) \<and>
          (case map_of entries ''perCategory'' of Some (JObj cats) \<Rightarrow> True | _ \<Rightarrow> False) \<and>
          (case map_of entries ''best'' of
             Some JNull \<Rightarrow> True | Some (JObj b) \<Rightarrow> True | _ \<Rightarrow> False)
      | _ \<Rightarrow> False)"

text \<open>The values that are no objects: \<^verbatim>\<open>null\<close> and the primitives.\<close>

fun is_object :: "json \<Rightarrow> bool" where
  "is_object (JObj entries) = True"
| "is_object (JArr elems props) = True"
| "is_object v = False"

section \<open>Sample values\<close>

text \<open>A value \<^verbatim>\<open>Math.random()\<close> can return, for running the definitions.\<close>

definition half :: rand01 where
  "half = Abs_rand01 (1 / 2)"

definition sample_question :: question where
  "sample_question =
     \<lparr>q_id = ''q1'', q_category = ''network'', q_difficulty = ''easy'', q_question = ''?'',
      q_choices = [''a'', ''b'', ''c''], q_answerIndex = 2, q_explanation = ''e''\<rparr>"

definition sample_bank :: "question list" where
  "sample_bank =
     [sample_question,
      sample_question\<lparr>q_id := ''q2''\<rparr>,
      sample_question\<lparr>q_id := ''q3'', q_category := ''privacy_security''\<rparr>]"

text \<open>The exam built from the sample bank for two questions of any category.\<close>

definition sample_exam :: "question list" where
  "sample_exam =
     [sample_question\<lparr>q_id := ''q2'', q_choices := [''a'', ''c'', ''b''], q_answerIndex := 1\<rparr>,
      sample_question\<lparr>q_choices := [''a'', ''c'', ''b''], q_answerIndex := 1\<rparr>]"

definition sample_session :: "string \<Rightarrow> state" where
  "sample_session mode =
     \<lparr>s_mode = mode, s_focus = ''all'', s_total = 2, s_questions = sample_exam, s_index = 0,
      s_answers = [], s_locked = False, s_stats = default_stats,
      s_screen = QuestionCard (sample_question\<lparr>q_id := ''q2'', q_choices := [''a'', ''c'', ''b''],
        q_answerIndex := 1\<rparr>)\<rparr>"

text \<open>The sample session after the answer 1 to its first question.\<close>

definition sample_answered :: "string \<Rightarrow> state" where
  "sample_answered mode =
     (sample_session mode)\<lparr>s_answers :=
        [\<lparr>a_id = ''q2'', a_chosenIndex = 1, a_correct = True, a_category = ''network''\<rparr>]\<rparr>"

section \<open>Random utilities: proofs\<close>

lemma Rep_half: "Rep_rand01 half = 1 / 2"
  by (simp add: half_def Abs_rand01_inverse)

lemma rand_index_less: "0 < n \<Longrightarrow> rand_index u n < n"
proof -
  assume n: "0 < n"
  have r: "0 \<le> Rep_rand01 u" "Rep_rand01 u < 1"
    using Rep_rand01 [of u] by auto
  have "Rep_rand01 u * real n < real n"
    using r n by simp
  then have "\<lfloor>Rep_rand01 u * real n\<rfloor> < int n"
    by (simp add: floor_less_iff)
  moreover have "0 \<le> \<lfloor>Rep_rand01 u * real n\<rfloor>"
    using r by simp
  ultimately show ?thesis
    unfolding rand_index_def by linarith
qed

lemma length_swap: "length (swap a i j) = length a"
  by (simp add: swap_def)

lemma mset_swap_in_range: "i < length a \<Longrightarrow> j < length a \<Longrightarrow> mset (swap a i j) = mset a"
  unfolding swap_def by (rule mset_swap [of j a i])

lemma shuffle_loop_mset:
  "i < length a \<or> a = [] \<and> i = 0 \<Longrightarrow> mset (fst (shuffle_loop rnd k i a)) = mset a"
proof (induction i arbitrary: k a)
  case 0
  then show ?case by simp
next
  case (Suc i)
  then have len: "Suc i < length a" by auto
  have j: "rand_index (rnd k) (Suc i + 1) < length a"
    using rand_index_less [of "Suc i + 1" "rnd k"] len by simp
  have "mset (fst (shuffle_loop rnd (k + 1) i (swap a (Suc i) (rand_index (rnd k) (Suc i + 1)))))
      = mset (swap a (Suc i) (rand_index (rnd k) (Suc i + 1)))"
    using len by (intro Suc.IH) (simp add: length_swap)
  then show ?case
    using len j by (simp add: mset_swap_in_range)
qed

lemma shuffle_mset: "mset (fst (shuffle rnd k arr)) = mset arr"
  unfolding shuffle_def by (rule shuffle_loop_mset) (cases arr; simp)

lemma shuffle_length: "length (fst (shuffle rnd k arr)) = length arr"
  using shuffle_mset [of rnd k arr] by (metis size_mset)

lemma shuffle_set: "set (fst (shuffle rnd k arr)) = set arr"
  using shuffle_mset [of rnd k arr] by (metis set_mset_mset)

lemma find_from_found:
  "\<exists>x \<in> set xs. P x \<Longrightarrow>
   \<exists>p. find_from P i xs = int (i + p) \<and> p < length xs \<and> P (xs ! p)"
proof (induction xs arbitrary: i)
  case Nil
  then show ?case by simp
next
  case (Cons x xs)
  show ?case
  proof (cases "P x")
    case True
    then show ?thesis by (intro exI [of _ 0]) simp
  next
    case False
    with Cons.prems have "\<exists>y \<in> set xs. P y" by auto
    from Cons.IH [OF this, of "Suc i"] obtain p where
      "find_from P (Suc i) xs = int (Suc i + p)" "p < length xs" "P (xs ! p)" by blast
    with False show ?thesis by (intro exI [of _ "Suc p"]) simp
  qed
qed

lemma findIndex_found:
  "\<exists>x \<in> set xs. P x \<Longrightarrow> \<exists>p. findIndex P xs = int p \<and> p < length xs \<and> P (xs ! p)"
  using find_from_found [of xs P 0] by (simp add: findIndex_def)

section \<open>Choice shuffler: proofs\<close>

lemma shuffled_choices:
  "shuffleQuestionChoices rnd k q =
     (q\<lparr>q_choices := map fst (fst (shuffle rnd k (zip (q_choices q) [0 ..< length (q_choices q)]))),
        q_answerIndex := findIndex (\<lambda>x. int (snd x) = q_answerIndex q)
          (fst (shuffle rnd k (zip (q_choices q) [0 ..< length (q_choices q)])))\<rparr>,
      snd (shuffle rnd k (zip (q_choices q) [0 ..< length (q_choices q)])))"
  by (simp add: shuffleQuestionChoices_def Let_def split_def)

lemma shuffled_answer:
  fixes cs :: "string list"
  assumes ai: "0 \<le> ai" "ai < int (length cs)"
    and sh: "mset shuffled = mset (zip cs [0 ..< length cs])"
  shows "\<exists>p. findIndex (\<lambda>x. int (snd x) = ai) shuffled = int p \<and> p < length shuffled \<and>
             map fst shuffled ! p = cs ! nat ai"
proof -
  let ?indexed = "zip cs [0 ..< length cs]"
  have sets: "set shuffled = set ?indexed"
    using sh by (metis set_mset_mset)
  have "(cs ! nat ai, nat ai) \<in> set ?indexed"
    using ai by (auto simp: in_set_zip intro!: exI [of _ "nat ai"])
  then have "\<exists>x \<in> set shuffled. int (snd x) = ai"
    using sets ai by force
  from findIndex_found [OF this] obtain p where
    p: "findIndex (\<lambda>x. int (snd x) = ai) shuffled = int p" "p < length shuffled"
       "int (snd (shuffled ! p)) = ai"
    by blast
  have "shuffled ! p \<in> set ?indexed"
    using p(2) sets by (metis nth_mem)
  then have m: "fst (shuffled ! p) = cs ! snd (shuffled ! p)" "snd (shuffled ! p) < length cs"
    by (auto simp: in_set_zip)
  from p(3) have "snd (shuffled ! p) = nat ai" by auto
  with m p show ?thesis by (intro exI [of _ p]) simp
qed

lemma shuffle_loop_in_eq:
  "a < length h \<Longrightarrow>
   shuffle_loop_in rnd k i a h =
     (h[a := fst (shuffle_loop rnd k i (h ! a))], snd (shuffle_loop rnd k i (h ! a)))"
proof (induction i arbitrary: k h)
  case 0
  then show ?case by simp
next
  case (Suc i)
  define j where "j = rand_index (rnd k) (Suc i + 1)"
  define h' where "h' = swap_in a (Suc i) j h"
  have len: "a < length h'"
    using Suc.prems by (simp add: h'_def swap_in_def)
  have at: "h' ! a = swap (h ! a) (Suc i) j"
    using Suc.prems by (simp add: h'_def swap_in_def)
  have upd: "h'[a := xs] = h[a := xs]" for xs
    by (simp add: h'_def swap_in_def)
  have "shuffle_loop_in rnd (k + 1) i a h' =
      (h'[a := fst (shuffle_loop rnd (k + 1) i (h' ! a))],
       snd (shuffle_loop rnd (k + 1) i (h' ! a)))"
    using len by (rule Suc.IH)
  then have "shuffle_loop_in rnd (k + 1) i a h' =
      (h[a := fst (shuffle_loop rnd (k + 1) i (swap (h ! a) (Suc i) j))],
       snd (shuffle_loop rnd (k + 1) i (swap (h ! a) (Suc i) j)))"
    by (simp only: at upd)
  then show ?case
    unfolding shuffle_loop_in.simps shuffle_loop.simps Let_def
    by (simp only: j_def h'_def)
qed

lemma shuffle_in_eq:
  "arr < length h \<Longrightarrow>
   shuffle_in rnd k arr h =
     (length h, h @ [fst (shuffle rnd k (h ! arr))], snd (shuffle rnd k (h ! arr)))"
  by (simp add: shuffle_in_def new_array_def shuffle_loop_in_eq shuffle_def)

lemma shuffleQuestionChoices_in_eq:
  assumes "choices < length texts" "texts ! choices = q_choices q"
  shows "shuffleQuestionChoices_in rnd k choices (q_answerIndex q) texts pairs =
     ((length texts, q_answerIndex (fst (shuffleQuestionChoices rnd k q))),
      texts @ [q_choices (fst (shuffleQuestionChoices rnd k q))],
      pairs @ [zip (q_choices q) [0 ..< length (q_choices q)],
               fst (shuffle rnd k (zip (q_choices q) [0 ..< length (q_choices q)]))],
      snd (shuffleQuestionChoices rnd k q))"
  using assms
  by (simp add: shuffleQuestionChoices_in_def new_array_def shuffle_in_eq shuffled_choices
      nth_append)

text \<open>
  C2. For a question whose \<^verbatim>\<open>answerIndex\<close> is an index of its \<^verbatim>\<open>choices\<close>,
  \<^verbatim>\<open>shuffleQuestionChoices\<close> returns a question whose choices are a permutation of the
  original ones, whose \<^verbatim>\<open>answerIndex\<close> is an index of the new choices that holds the
  text the original \<^verbatim>\<open>answerIndex\<close> held, and whose other fields are those of the input.
  The input is left as it was: with the arrays in a store, every array that existed before
  the call, the \<^verbatim>\<open>choices\<close> of the input among them, holds what it held, the new choices
  are a new array, and the result is that of the function on values.
\<close>

theorem shuffleQuestionChoices_fidelity:
  assumes "0 \<le> q_answerIndex q" and "q_answerIndex q < int (length (q_choices q))"
  shows "mset (q_choices (fst (shuffleQuestionChoices rnd k q))) = mset (q_choices q) \<and>
         at_index (q_choices (fst (shuffleQuestionChoices rnd k q)))
                  (q_answerIndex (fst (shuffleQuestionChoices rnd k q)))
           = Some (q_choices q ! nat (q_answerIndex q)) \<and>
         at_index (q_choices q) (q_answerIndex q) = Some (q_choices q ! nat (q_answerIndex q)) \<and>
         fst (shuffleQuestionChoices rnd k q)
           = q\<lparr>q_choices := q_choices (fst (shuffleQuestionChoices rnd k q)),
               q_answerIndex := q_answerIndex (fst (shuffleQuestionChoices rnd k q))\<rparr> \<and>
         (\<forall>choices texts pairs. choices < length texts \<and> texts ! choices = q_choices q \<longrightarrow>
            (case shuffleQuestionChoices_in rnd k choices (q_answerIndex q) texts pairs of
               ((newChoices, newAnswerIndex), texts', pairs', k') \<Rightarrow>
                 take (length texts) texts' = texts \<and> take (length pairs) pairs' = pairs \<and>
                 texts' ! choices = q_choices q \<and>
                 length texts \<le> newChoices \<and>
                 texts' ! newChoices = q_choices (fst (shuffleQuestionChoices rnd k q)) \<and>
                 newAnswerIndex = q_answerIndex (fst (shuffleQuestionChoices rnd k q))))"
proof -
  let ?indexed = "zip (q_choices q) [0 ..< length (q_choices q)]"
  let ?shuffled = "fst (shuffle rnd k ?indexed)"
  have sh: "mset ?shuffled = mset ?indexed"
    by (rule shuffle_mset)
  have "mset (map fst ?shuffled) = mset (map fst ?indexed)"
    using sh by (metis mset_map)
  then have perm: "mset (map fst ?shuffled) = mset (q_choices q)"
    by simp
  from shuffled_answer [OF assms sh] obtain p where
    p: "findIndex (\<lambda>x. int (snd x) = q_answerIndex q) ?shuffled = int p"
       "p < length ?shuffled" "map fst ?shuffled ! p = q_choices q ! nat (q_answerIndex q)"
    by blast
  have val: "mset (q_choices (fst (shuffleQuestionChoices rnd k q))) = mset (q_choices q) \<and>
         at_index (q_choices (fst (shuffleQuestionChoices rnd k q)))
                  (q_answerIndex (fst (shuffleQuestionChoices rnd k q)))
           = Some (q_choices q ! nat (q_answerIndex q)) \<and>
         at_index (q_choices q) (q_answerIndex q) = Some (q_choices q ! nat (q_answerIndex q)) \<and>
         fst (shuffleQuestionChoices rnd k q)
           = q\<lparr>q_choices := q_choices (fst (shuffleQuestionChoices rnd k q)),
               q_answerIndex := q_answerIndex (fst (shuffleQuestionChoices rnd k q))\<rparr>"
    using perm p assms by (simp add: shuffled_choices at_index_def)
  have store: "case shuffleQuestionChoices_in rnd k choices (q_answerIndex q) texts pairs of
       ((newChoices, newAnswerIndex), texts', pairs', k') \<Rightarrow>
         take (length texts) texts' = texts \<and> take (length pairs) pairs' = pairs \<and>
         texts' ! choices = q_choices q \<and>
         length texts \<le> newChoices \<and>
         texts' ! newChoices = q_choices (fst (shuffleQuestionChoices rnd k q)) \<and>
         newAnswerIndex = q_answerIndex (fst (shuffleQuestionChoices rnd k q))"
    if "choices < length texts \<and> texts ! choices = q_choices q" for choices texts pairs
    using that by (simp add: shuffleQuestionChoices_in_eq nth_append)
  from val store show ?thesis
    by (intro conjI allI impI) simp_all
qed

theorem shuffleQuestionChoices_fidelity_witness:
  "0 \<le> q_answerIndex sample_question \<and>
   q_answerIndex sample_question < int (length (q_choices sample_question)) \<and>
   fst (shuffleQuestionChoices (\<lambda>_. half) 0 sample_question)
     = sample_question\<lparr>q_choices := [''a'', ''c'', ''b''], q_answerIndex := 1\<rparr> \<and>
   mset (q_choices (fst (shuffleQuestionChoices (\<lambda>_. half) 0 sample_question)))
     = mset [''a'', ''b'', ''c''] \<and>
   at_index (q_choices (fst (shuffleQuestionChoices (\<lambda>_. half) 0 sample_question)))
            (q_answerIndex (fst (shuffleQuestionChoices (\<lambda>_. half) 0 sample_question)))
     = Some ''c'' \<and>
   shuffleQuestionChoices_in (\<lambda>_. half) 0 0 2 [[''a'', ''b'', ''c'']] []
     = ((1, 1), [[''a'', ''b'', ''c''], [''a'', ''c'', ''b'']],
        [[(''a'', 0), (''b'', 1), (''c'', 2)], [(''a'', 0), (''c'', 2), (''b'', 1)]], 2)"
proof -
  have h: "0 \<le> q_answerIndex sample_question"
    "q_answerIndex sample_question < int (length (q_choices sample_question))"
    by (simp_all add: sample_question_def)
  have v: "fst (shuffleQuestionChoices (\<lambda>_. half) 0 sample_question)
     = sample_question\<lparr>q_choices := [''a'', ''c'', ''b''], q_answerIndex := 1\<rparr>"
    by (simp add: sample_question_def shuffleQuestionChoices_def shuffle_def swap_def
        rand_index_def Rep_half findIndex_def Let_def)
  have st: "shuffleQuestionChoices_in (\<lambda>_. half) 0 0 2 [[''a'', ''b'', ''c'']] []
     = ((1, 1), [[''a'', ''b'', ''c''], [''a'', ''c'', ''b'']],
        [[(''a'', 0), (''b'', 1), (''c'', 2)], [(''a'', 0), (''c'', 2), (''b'', 1)]], 2)"
    by (simp add: shuffleQuestionChoices_in_def shuffle_in_def new_array_def swap_in_def
        swap_def rand_index_def Rep_half findIndex_def Let_def)
  show ?thesis
    using h v st shuffleQuestionChoices_fidelity [OF h, of "\<lambda>_. half" 0]
    by (simp add: sample_question_def)
qed

section \<open>Weighted pick: proofs\<close>

lemma or_one_cases:
  "or_one None = 1" "or_one (Some 0) = 1" "x \<noteq> 0 \<Longrightarrow> or_one (Some x) = x"
  by (simp_all add: or_one_def)

lemma length_pick_weights: "length (pick_weights items weightFn) = length items"
  by (simp add: pick_weights_def)

lemma pick_weights_nth:
  "i < length items \<Longrightarrow> pick_weights items weightFn ! i = max (1 / 10000) (or_one (weightFn (items ! i)))"
  by (simp add: pick_weights_def)

lemma pick_weights_pos: "w \<in> set (pick_weights items weightFn) \<Longrightarrow> 0 < w"
  by (auto simp: pick_weights_def)

lemma pick_scan_mem: "pick_scan xs ws r = Some x \<Longrightarrow> x \<in> set xs"
  by (induction xs ws r rule: pick_scan.induct) (auto simp: Let_def split: if_splits)

lemma weightedPick_nonempty:
  "items \<noteq> [] \<Longrightarrow> \<exists>x \<in> set items. weightedPick items weightFn u = Inr (Some x)"
proof (cases "pick_scan items (pick_weights items weightFn)
    (Rep_rand01 u * foldl (+) 0 (pick_weights items weightFn))")
  case None
  assume "items \<noteq> []"
  then have "at_index items (int (length items) - 1) = Some (last items)"
    by (cases items rule: rev_cases) (simp_all add: at_index_def nat_diff_distrib')
  with None \<open>items \<noteq> []\<close> show ?thesis
    by (simp add: weightedPick_def Let_def)
next
  case (Some x)
  then show ?thesis
    by (auto simp: weightedPick_def Let_def dest: pick_scan_mem)
qed

lemma weightedPick_empty: "weightedPick [] weightFn u = Inr None"
  by (simp add: weightedPick_def at_index_def pick_weights_def)

text \<open>
  C8, as the code has it. The weight of an item is \<^verbatim>\<open>Math.max(0.0001, Number(w) || 1)\<close>,
  for a weight function that yields a number or a non-numeric value: it is at least the
  floor \<open>0.0001\<close>, so positive. A \<open>w\<close> that is negative, or nonzero and not above the floor,
  gets the floor; \<open>0\<close> and a non-numeric \<open>w\<close> get the weight \<open>1\<close>, not the floor; a \<open>w\<close>
  from the floor on is kept. Nothing is said on the selection probability of an item,
  which the positive weight does not settle.
\<close>

theorem weightedPick_weights:
  assumes "i < length items"
  shows "1 / 10000 \<le> pick_weights items weightFn ! i \<and>
    0 < pick_weights items weightFn ! i \<and>
    (weightFn (items ! i) = None \<or> weightFn (items ! i) = Some 0 \<longrightarrow>
       pick_weights items weightFn ! i = 1) \<and>
    (\<forall>x. weightFn (items ! i) = Some x \<and> x \<noteq> 0 \<and> x \<le> 1 / 10000 \<longrightarrow>
       pick_weights items weightFn ! i = 1 / 10000) \<and>
    (\<forall>x. weightFn (items ! i) = Some x \<and> 1 / 10000 \<le> x \<longrightarrow>
       pick_weights items weightFn ! i = x)"
proof -
  have w: "pick_weights items weightFn ! i = max (1 / 10000) (or_one (weightFn (items ! i)))"
    using assms by (rule pick_weights_nth)
  have "1 / 10000 \<le> pick_weights items weightFn ! i"
    by (simp add: w)
  moreover from this have "0 < pick_weights items weightFn ! i"
    by linarith
  moreover have "weightFn (items ! i) = None \<or> weightFn (items ! i) = Some 0 \<longrightarrow>
       pick_weights items weightFn ! i = 1"
    by (auto simp: w or_one_def)
  moreover have "\<forall>x. weightFn (items ! i) = Some x \<and> x \<noteq> 0 \<and> x \<le> 1 / 10000 \<longrightarrow>
       pick_weights items weightFn ! i = 1 / 10000"
    by (auto simp: w or_one_def)
  moreover have "\<forall>x. weightFn (items ! i) = Some x \<and> 1 / 10000 \<le> x \<longrightarrow>
       pick_weights items weightFn ! i = x"
    by (auto simp: w or_one_def)
  ultimately show ?thesis
    by (intro conjI)
qed

theorem weightedPick_weights_witness:
  "(0::nat) < length [''a'', ''b'', ''c'', ''d''] \<and>
   pick_weights [''a'', ''b'', ''c'', ''d'']
     (\<lambda>x. if x = ''b'' then Some (- 2) else if x = ''c'' then Some 3
          else if x = ''d'' then Some (1 / 20000) else None) ! 0 = 1 \<and>
   (1::nat) < length [''a'', ''b'', ''c'', ''d''] \<and>
   pick_weights [''a'', ''b'', ''c'', ''d'']
     (\<lambda>x. if x = ''b'' then Some (- 2) else if x = ''c'' then Some 3
          else if x = ''d'' then Some (1 / 20000) else None) ! 1 = 1 / 10000 \<and>
   (2::nat) < length [''a'', ''b'', ''c'', ''d''] \<and>
   pick_weights [''a'', ''b'', ''c'', ''d'']
     (\<lambda>x. if x = ''b'' then Some (- 2) else if x = ''c'' then Some 3
          else if x = ''d'' then Some (1 / 20000) else None) ! 2 = 3 \<and>
   (3::nat) < length [''a'', ''b'', ''c'', ''d''] \<and>
   pick_weights [''a'', ''b'', ''c'', ''d'']
     (\<lambda>x. if x = ''b'' then Some (- 2) else if x = ''c'' then Some 3
          else if x = ''d'' then Some (1 / 20000) else None) ! 3 = 1 / 10000"
proof -
  let ?w = "\<lambda>x. if x = ''b'' then Some (- 2) else if x = ''c'' then Some 3
          else if x = ''d'' then Some (1 / 20000) else (None :: real option)"
  have h0: "(0::nat) < length [''a'', ''b'', ''c'', ''d'']" by simp
  have h1: "(1::nat) < length [''a'', ''b'', ''c'', ''d'']" by simp
  have h2: "(2::nat) < length [''a'', ''b'', ''c'', ''d'']" by simp
  have h3: "(3::nat) < length [''a'', ''b'', ''c'', ''d'']" by simp
  have a: "pick_weights [''a'', ''b'', ''c'', ''d''] ?w ! 0 = 1"
    using weightedPick_weights [OF h0, of ?w] by simp
  have b: "pick_weights [''a'', ''b'', ''c'', ''d''] ?w ! 1 = 1 / 10000"
    using weightedPick_weights [OF h1, of ?w] by simp
  have c: "pick_weights [''a'', ''b'', ''c'', ''d''] ?w ! 2 = 3"
    using weightedPick_weights [OF h2, of ?w] by simp
  have d: "pick_weights [''a'', ''b'', ''c'', ''d''] ?w ! 3 = 1 / 10000"
    using weightedPick_weights [OF h3, of ?w, THEN conjunct2, THEN conjunct2, THEN conjunct2,
        THEN conjunct1, THEN spec, of "1 / 20000"]
    by simp
  from h0 a h1 b h2 c h3 d show ?thesis
    by (intro conjI)
qed

text \<open>
  Against the claim as it was: a weight of \<open>0\<close> and a non-numeric weight become \<open>1\<close>, not the
  floor. And the floor does not keep every item selectable: beside a weight of \<open>10 ^ 30\<close>
  an item at the floor is returned for no draw up to \<open>1 - 1 / 2 ^ 53\<close>, the largest double
  below \<open>1\<close>, so for no value of \<^verbatim>\<open>Math.random()\<close> (the source, which rounds the sum to
  \<open>10 ^ 30\<close>, returns the first item for every draw).
\<close>

theorem weightedPick_weights_counterexample:
  "pick_weights [''a''] (\<lambda>x. Some 0) = [1] \<and> pick_weights [''a''] (\<lambda>x. None) = [1] \<and>
   \<not> (\<exists>u. Rep_rand01 u \<le> 1 - 1 / 2 ^ 53 \<and>
          weightedPick [''big'', ''small'']
            (\<lambda>x. if x = ''big'' then Some (10 ^ 30) else Some (- 2)) u
          = Inr (Some ''small''))"
proof (intro conjI notI)
  show "pick_weights [''a''] (\<lambda>x. Some 0) = [1]"
    by (simp add: pick_weights_def or_one_def)
  show "pick_weights [''a''] (\<lambda>x. None) = [1]"
    by (simp add: pick_weights_def or_one_def)
next
  assume "\<exists>u. Rep_rand01 u \<le> 1 - 1 / 2 ^ 53 \<and>
          weightedPick [''big'', ''small'']
            (\<lambda>x. if x = ''big'' then Some (10 ^ 30) else Some (- 2)) u
          = Inr (Some ''small'')"
  then obtain u where u: "Rep_rand01 u \<le> 1 - 1 / 2 ^ 53"
    and pick: "weightedPick [''big'', ''small'']
            (\<lambda>x. if x = ''big'' then Some (10 ^ 30) else Some (- 2)) u
          = Inr (Some ''small'')"
    by blast
  have "Rep_rand01 u * (10 ^ 30 + 1 / 10000) \<le> (1 - 1 / 2 ^ 53) * (10 ^ 30 + 1 / 10000)"
    using u by (intro mult_right_mono) simp_all
  also have "(1 - 1 / 2 ^ 53) * (10 ^ 30 + 1 / 10000) \<le> (10 ^ 30 :: real)"
    by simp
  finally have first: "Rep_rand01 u * (10 ^ 30 + 1 / 10000) - 10 ^ 30 \<le> 0"
    by simp
  have "weightedPick [''big'', ''small'']
            (\<lambda>x. if x = ''big'' then Some (10 ^ 30) else Some (- 2)) u
          = Inr (Some ''big'')"
    using first by (simp add: weightedPick_def pick_weights_def or_one_def Let_def)
  with pick show False
    by simp
qed

text \<open>
  C9, as the code has it. \<^verbatim>\<open>weightedPick\<close> never throws: for every non-empty \<^verbatim>\<open>items\<close> and
  every weight function it returns an element of \<^verbatim>\<open>items\<close>, and for an empty \<^verbatim>\<open>items\<close> it
  returns \<^verbatim>\<open>undefined\<close>, which is no failure of its own.
\<close>

theorem weightedPick_returns:
  "(items \<noteq> [] \<longrightarrow> (\<exists>x \<in> set items. weightedPick items weightFn u = Inr (Some x))) \<and>
   (items = [] \<longrightarrow> weightedPick items weightFn u = Inr None)"
  using weightedPick_nonempty [of items weightFn u] weightedPick_empty [of weightFn u] by blast

theorem weightedPick_returns_witness:
  "[''a'', ''b''] \<noteq> [] \<and> weightedPick [''a'', ''b''] (\<lambda>x. Some 1) half = Inr (Some ''a'') \<and>
   (\<exists>x \<in> set [''a'', ''b'']. weightedPick [''a'', ''b''] (\<lambda>x. Some 1) half = Inr (Some x)) \<and>
   weightedPick ([] :: question list) (\<lambda>x. None) half = Inr None"
proof -
  have v: "weightedPick [''a'', ''b''] (\<lambda>x. Some 1) half = Inr (Some ''a'')"
    by (simp add: weightedPick_def pick_weights_def or_one_def Rep_half Let_def)
  show ?thesis
    using v weightedPick_returns [of "[''a'', ''b'']" "\<lambda>x. Some 1" half]
      weightedPick_returns [of "[] :: question list" "\<lambda>x. None" half]
    by simp
qed

theorem weightedPick_returns_counterexample:
  "weightedPick ([] :: string list) (\<lambda>x. Some 1) half = Inr None"
  by (simp add: weightedPick_def at_index_def pick_weights_def)

section \<open>Exam builder: proofs\<close>

lemma shuffleQuestionChoices_id: "q_id (fst (shuffleQuestionChoices rnd k q)) = q_id q"
  by (simp add: shuffled_choices)

lemma shuffle_all_ids: "map q_id (fst (shuffle_all rnd k qs)) = map q_id qs"
  by (induction qs arbitrary: k) (simp_all add: split_def Let_def shuffleQuestionChoices_id)

lemma pick_loop_inv:
  "distinct (map q_id picked) \<Longrightarrow> usedIds = q_id ` set picked \<Longrightarrow> set picked \<subseteq> set pool \<Longrightarrow>
   int (length picked) \<le> max 0 cnt \<Longrightarrow> attempts = length picked \<Longrightarrow>
   \<exists>picked' k'. pick_loop rnd cnt weightFn pool picked usedIds attempts k
       = Inr (picked', q_id ` set picked', k') \<and>
     distinct (map q_id picked') \<and> set picked' \<subseteq> set pool \<and>
     int (length picked') \<le> max 0 cnt"
proof (induction rnd cnt weightFn pool picked usedIds attempts k rule: pick_loop.induct)
  case (1 rnd cnt weightFn pool picked usedIds attempts k)
  let ?candidates = "filter (\<lambda>q. q_id q \<notin> usedIds) pool"
  show ?case
  proof (cases "int (length picked) < cnt \<and> attempts < attemptsLimit")
    case False
    with "1.prems" show ?thesis
      by (subst pick_loop.simps) auto
  next
    case go: True
    show ?thesis
    proof (cases "?candidates = []")
      case True
      with go "1.prems" show ?thesis
        by (subst pick_loop.simps) (auto simp: Let_def)
    next
      case False
      from weightedPick_nonempty [OF False, of weightFn "rnd k"] obtain q where
        q: "q \<in> set ?candidates" "weightedPick ?candidates weightFn (rnd k) = Inr (Some q)"
        by blast
      have "\<exists>picked' k'. pick_loop rnd cnt weightFn pool (picked @ [q])
               (insert (q_id q) usedIds) (attempts + 1) (k + 1)
             = Inr (picked', q_id ` set picked', k') \<and>
           distinct (map q_id picked') \<and> set picked' \<subseteq> set pool \<and>
           int (length picked') \<le> max 0 cnt"
        using go False q "1.prems" by (intro "1.IH" [OF go refl False q(2) refl]) auto
      with go False q(2) show ?thesis
        by (subst pick_loop.simps) (simp add: Let_def)
    qed
  qed
qed

lemma picked_partition:
  assumes "distinct (map q_id pool)" "distinct (map q_id picked)" "set picked \<subseteq> set pool"
  shows "mset picked + mset (filter (\<lambda>q. q_id q \<notin> q_id ` set picked) pool) = mset pool"
proof -
  let ?used = "filter (\<lambda>q. q_id q \<in> q_id ` set picked) pool"
  have dpool: "distinct pool" and inj: "inj_on q_id (set pool)" and dpicked: "distinct picked"
    using assms(1,2) by (simp_all add: distinct_map)
  have "set ?used = set picked"
  proof (intro equalityI subsetI)
    fix q assume "q \<in> set ?used"
    then have q: "q \<in> set pool" "q_id q \<in> q_id ` set picked" by simp_all
    from q(2) obtain p where p: "p \<in> set picked" "q_id q = q_id p" by (rule imageE)
    from p(1) assms(3) have pp: "p \<in> set pool" by (rule subsetD [rotated])
    from inj p(2) q(1) pp have "q = p" by (rule inj_onD)
    with p(1) show "q \<in> set picked" by simp
  next
    fix q assume q: "q \<in> set picked"
    with assms(3) have "q \<in> set pool" by (rule subsetD)
    with q show "q \<in> set ?used" by simp
  qed
  moreover have "distinct ?used"
    using dpool by (rule distinct_filter)
  ultimately have "mset ?used = mset picked"
    using dpicked by (simp only: set_eq_iff_mset_eq_distinct [symmetric])
  moreover have "mset ?used + mset (filter (\<lambda>q. q_id q \<notin> q_id ` set picked) pool) = mset pool"
    unfolding mset_filter by (rule multiset_partition [symmetric])
  ultimately show ?thesis by (simp only:)
qed

lemma remaining_length:
  assumes "distinct (map q_id pool)" "distinct (map q_id picked)" "set picked \<subseteq> set pool"
  shows "length picked + length (filter (\<lambda>q. q_id q \<notin> q_id ` set picked) pool) = length pool"
proof -
  have "size (mset picked + mset (filter (\<lambda>q. q_id q \<notin> q_id ` set picked) pool))
      = size (mset pool)"
    by (simp only: picked_partition [OF assms])
  then show ?thesis
    by (simp only: size_union size_mset)
qed

lemma fill_remainder_distinct:
  assumes "distinct (map q_id pool)" "distinct (map q_id picked)"
  shows "distinct (map q_id (fill_remainder cnt pool picked (q_id ` set picked)))"
proof (cases "int (length picked) < cnt")
  case False
  with assms(2) show ?thesis
    by (simp add: fill_remainder_def)
next
  case True
  let ?rem = "filter (\<lambda>q. q_id q \<notin> q_id ` set picked) pool"
  let ?fill = "take (nat (cnt - int (length picked))) ?rem"
  have "distinct (map q_id ?rem)"
    using assms(1) by (rule distinct_map_filter)
  then have "distinct (take (nat (cnt - int (length picked))) (map q_id ?rem))"
    by (rule distinct_take)
  then have d: "distinct (map q_id ?fill)"
    by (simp only: take_map)
  have "y \<notin> set (map q_id picked)" if "y \<in> set (map q_id ?fill)" for y
  proof -
    from that obtain x where x: "x \<in> set ?fill" "y = q_id x" by auto
    from in_set_takeD [OF x(1)] x(2) show ?thesis by simp
  qed
  then have "set (map q_id picked) \<inter> set (map q_id ?fill) = {}"
    by (simp only: disjoint_iff) metis
  with assms(2) d have "distinct (map q_id picked @ map q_id ?fill)"
    by (simp only: distinct_append)
  moreover have "fill_remainder cnt pool picked (q_id ` set picked) = picked @ ?fill"
    using True by (simp add: fill_remainder_def Let_def)
  ultimately show ?thesis
    by (simp only: map_append)
qed

lemma fill_remainder_length:
  assumes "distinct (map q_id pool)" "distinct (map q_id picked)" "set picked \<subseteq> set pool"
    and "int (length picked) \<le> max 0 cnt" "0 \<le> cnt" "cnt \<le> int (length pool)"
  shows "int (length (fill_remainder cnt pool picked (q_id ` set picked))) = cnt"
  using remaining_length [OF assms(1-3)] assms(4-6)
  by (auto simp: fill_remainder_def Let_def)

lemma fill_remainder_all:
  assumes "distinct (map q_id pool)" "distinct (map q_id picked)" "set picked \<subseteq> set pool"
    and "int (length pool) < cnt"
  shows "mset (fill_remainder cnt pool picked (q_id ` set picked)) = mset pool"
proof -
  let ?rem = "filter (\<lambda>q. q_id q \<notin> q_id ` set picked) pool"
  have len: "length picked + length ?rem = length pool"
    by (rule remaining_length [OF assms(1-3)])
  have "length ?rem \<le> nat (cnt - int (length picked))"
    using len assms(4) by linarith
  then have all: "take (nat (cnt - int (length picked))) ?rem = ?rem"
    by (rule take_all)
  have short: "int (length picked) < cnt"
    using len assms(4) by linarith
  have "fill_remainder cnt pool picked (q_id ` set picked) = picked @ ?rem"
    unfolding fill_remainder_def Let_def using short by (simp only: all if_True)
  then show ?thesis
    by (simp only: mset_append picked_partition [OF assms(1-3)])
qed

lemma fill_remainder_nonpositive:
  "int (length picked) \<le> max 0 cnt \<Longrightarrow> cnt \<le> 0 \<Longrightarrow>
   fill_remainder cnt pool picked usedIds = []"
  by (auto simp: fill_remainder_def)

lemma focus_pool_length: "length (focus_pool QUESTIONS focus) \<le> length QUESTIONS"
  by (simp add: focus_pool_def)

lemma exam_pool_distinct:
  "distinct (map q_id QUESTIONS) \<Longrightarrow> distinct (map q_id (exam_pool QUESTIONS cnt focus))"
  by (simp add: exam_pool_def focus_pool_def Let_def distinct_map_filter)

lemma exam_pool_short:
  "int (length QUESTIONS) < cnt \<Longrightarrow> exam_pool QUESTIONS cnt focus = QUESTIONS"
proof -
  assume short: "int (length QUESTIONS) < cnt"
  with focus_pool_length [of QUESTIONS focus] have "int (length (focus_pool QUESTIONS focus)) < cnt"
    by linarith
  then show ?thesis
    by (simp add: exam_pool_def)
qed

lemma buildExamQuestions_picked:
  "\<exists>picked k. buildExamQuestions QUESTIONS rnd cnt focus stats
       = Inr (fst (shuffle_all rnd k
           (fill_remainder cnt (exam_pool QUESTIONS cnt focus) picked (q_id ` set picked)))) \<and>
     distinct (map q_id picked) \<and> set picked \<subseteq> set (exam_pool QUESTIONS cnt focus) \<and>
     int (length picked) \<le> max 0 cnt"
proof -
  from pick_loop_inv [of "[]" "{}" "exam_pool QUESTIONS cnt focus" cnt 0 rnd
      "pick_weight focus (category_weights stats)" 0]
  obtain picked k where
    "pick_loop rnd cnt (pick_weight focus (category_weights stats))
       (exam_pool QUESTIONS cnt focus) [] {} 0 0 = Inr (picked, q_id ` set picked, k)"
    "distinct (map q_id picked)" "set picked \<subseteq> set (exam_pool QUESTIONS cnt focus)"
    "int (length picked) \<le> max 0 cnt"
    by auto
  then show ?thesis
    by (auto simp: buildExamQuestions_def Let_def)
qed

lemma sample_bank_distinct: "distinct (map q_id sample_bank)"
  by (simp add: sample_bank_def sample_question_def)

lemma sample_build_exam:
  "buildExamQuestions sample_bank (\<lambda>_. half) 2 ''all'' default_stats = Inr sample_exam"
  by (simp add: buildExamQuestions_def exam_pool_def focus_pool_def sample_bank_def
      sample_question_def pick_loop.simps weightedPick_def pick_weights_def or_one_def
      pick_weight_def Rep_half attemptsLimit_def fill_remainder_def Let_def sample_exam_def
      shuffleQuestionChoices_def shuffle_def swap_def rand_index_def findIndex_def)

lemma fill_remainder_length_le:
  "int (length picked) \<le> max 0 cnt \<Longrightarrow>
   int (length (fill_remainder cnt pool picked usedIds)) \<le> max 0 cnt"
  by (auto simp: fill_remainder_def Let_def)

text \<open>
  C5. \<^verbatim>\<open>buildExamQuestions\<close> never throws. The pool is the focused pool, or the full bank
  when the focused pool has fewer than \<^verbatim>\<open>count\<close> questions. The result never has more than
  \<^verbatim>\<open>count\<close> questions, and a \<^verbatim>\<open>count\<close> of zero or less gives the empty sequence. For a bank
  of questions with pairwise distinct ids (the data model's invariant): when the pool has
  at least \<^verbatim>\<open>count\<close> questions the result has exactly \<^verbatim>\<open>count\<close> of them, and when the bank
  has fewer than \<^verbatim>\<open>count\<close> questions the result holds every bank question once.
\<close>

theorem buildExamQuestions_quota:
  "\<exists>qs. buildExamQuestions QUESTIONS rnd cnt focus stats = Inr qs \<and>
     exam_pool QUESTIONS cnt focus =
       (if int (length (focus_pool QUESTIONS focus)) < cnt then QUESTIONS
        else focus_pool QUESTIONS focus) \<and>
     int (length qs) \<le> max 0 cnt \<and>
     (cnt \<le> 0 \<longrightarrow> qs = []) \<and>
     (distinct (map q_id QUESTIONS) \<longrightarrow>
        (0 \<le> cnt \<and> cnt \<le> int (length (exam_pool QUESTIONS cnt focus)) \<longrightarrow>
           int (length qs) = cnt) \<and>
        (int (length QUESTIONS) < cnt \<longrightarrow>
           length qs = length QUESTIONS \<and> mset (map q_id qs) = mset (map q_id QUESTIONS)))"
proof -
  let ?pool = "exam_pool QUESTIONS cnt focus"
  from buildExamQuestions_picked [of QUESTIONS rnd cnt focus stats] obtain picked k where
    b: "buildExamQuestions QUESTIONS rnd cnt focus stats
          = Inr (fst (shuffle_all rnd k (fill_remainder cnt ?pool picked (q_id ` set picked))))"
    and p: "distinct (map q_id picked)" "set picked \<subseteq> set ?pool"
      "int (length picked) \<le> max 0 cnt"
    by blast
  let ?final = "fill_remainder cnt ?pool picked (q_id ` set picked)"
  let ?qs = "fst (shuffle_all rnd k ?final)"
  have ids: "map q_id ?qs = map q_id ?final"
    by (rule shuffle_all_ids)
  then have len: "length ?qs = length ?final"
    by (metis length_map)
  have pool: "?pool = (if int (length (focus_pool QUESTIONS focus)) < cnt then QUESTIONS
        else focus_pool QUESTIONS focus)"
    by (simp add: exam_pool_def)
  have most: "int (length ?qs) \<le> max 0 cnt"
    using fill_remainder_length_le [OF p(3), of ?pool "q_id ` set picked"] len by simp
  have none: "?qs = []" if "cnt \<le> 0"
    using fill_remainder_nonpositive [OF p(3) that, of ?pool "q_id ` set picked"] by simp
  have quota: "int (length ?qs) = cnt"
    if "distinct (map q_id QUESTIONS)" "0 \<le> cnt \<and> cnt \<le> int (length ?pool)"
  proof -
    have "distinct (map q_id ?pool)"
      using that(1) by (rule exam_pool_distinct)
    from fill_remainder_length [OF this p] that(2) len show ?thesis by simp
  qed
  have short: "length ?qs = length QUESTIONS \<and> mset (map q_id ?qs) = mset (map q_id QUESTIONS)"
    if "distinct (map q_id QUESTIONS)" "int (length QUESTIONS) < cnt"
  proof -
    have eq: "?pool = QUESTIONS"
      using that(2) by (rule exam_pool_short)
    have "distinct (map q_id ?pool)"
      using that(1) by (rule exam_pool_distinct)
    then have "mset ?final = mset ?pool"
      using p(1,2) that(2) unfolding eq by (rule fill_remainder_all)
    then have m: "mset ?final = mset QUESTIONS"
      by (simp only: eq)
    then have "mset (map q_id ?final) = mset (map q_id QUESTIONS)"
      by (metis mset_map)
    moreover from m have "length ?final = length QUESTIONS"
      by (metis size_mset)
    ultimately show ?thesis
      using ids len by simp
  qed
  show ?thesis
    using b pool most none quota short by blast
qed

theorem buildExamQuestions_quota_witness:
  "distinct (map q_id sample_bank) \<and>
   buildExamQuestions sample_bank (\<lambda>_. half) 2 ''all'' default_stats = Inr sample_exam \<and>
   exam_pool sample_bank 2 ''all'' = sample_bank \<and>
   0 \<le> (2::int) \<and> 2 \<le> int (length (exam_pool sample_bank 2 ''all'')) \<and>
   int (length sample_exam) = 2 \<and>
   buildExamQuestions sample_bank (\<lambda>_. half) 0 ''all'' default_stats = Inr [] \<and>
   int (length sample_bank) < 5 \<and>
   exam_pool sample_bank 5 ''privacy_security'' = sample_bank \<and>
   (\<exists>qs. buildExamQuestions sample_bank (\<lambda>_. half) 5 ''privacy_security'' default_stats = Inr qs \<and>
      length qs = 3 \<and> mset (map q_id qs) = mset [''q1'', ''q2'', ''q3''])"
proof -
  have pool: "exam_pool sample_bank 2 ''all'' = sample_bank"
    by (simp add: exam_pool_def focus_pool_def sample_bank_def)
  have h: "0 \<le> (2::int) \<and> 2 \<le> int (length (exam_pool sample_bank 2 ''all''))"
    by (simp add: pool) (simp add: sample_bank_def)
  from buildExamQuestions_quota [of sample_bank "\<lambda>_. half" 2 "''all''" default_stats]
  obtain qs where qs: "buildExamQuestions sample_bank (\<lambda>_. half) 2 ''all'' default_stats = Inr qs"
    "distinct (map q_id sample_bank) \<longrightarrow>
       (0 \<le> (2::int) \<and> 2 \<le> int (length (exam_pool sample_bank 2 ''all'')) \<longrightarrow>
           int (length qs) = 2) \<and>
       (int (length sample_bank) < 2 \<longrightarrow>
           length qs = length sample_bank \<and> mset (map q_id qs) = mset (map q_id sample_bank))"
    by (elim exE conjE) (rule that; assumption)
  from qs(2) sample_bank_distinct h have "int (length qs) = 2"
    by simp
  moreover from qs(1) have "qs = sample_exam"
    by (simp add: sample_build_exam)
  ultimately have two: "int (length sample_exam) = 2"
    by simp
  from buildExamQuestions_quota [of sample_bank "\<lambda>_. half" 0 "''all''" default_stats]
  have zero: "buildExamQuestions sample_bank (\<lambda>_. half) 0 ''all'' default_stats = Inr []"
    by auto
  have short: "int (length sample_bank) < 5"
    by (simp add: sample_bank_def)
  have wide: "exam_pool sample_bank 5 ''privacy_security'' = sample_bank"
    using short by (rule exam_pool_short)
  from buildExamQuestions_quota [of sample_bank "\<lambda>_. half" 5 "''privacy_security''" default_stats]
  obtain qs' where qs':
    "buildExamQuestions sample_bank (\<lambda>_. half) 5 ''privacy_security'' default_stats = Inr qs'"
    "distinct (map q_id sample_bank) \<longrightarrow>
       (0 \<le> (5::int) \<and> 5 \<le> int (length (exam_pool sample_bank 5 ''privacy_security'')) \<longrightarrow>
           int (length qs') = 5) \<and>
       (int (length sample_bank) < 5 \<longrightarrow>
           length qs' = length sample_bank \<and> mset (map q_id qs') = mset (map q_id sample_bank))"
    by (elim exE conjE) (rule that; assumption)
  from qs'(2) sample_bank_distinct short
  have "length qs' = length sample_bank \<and> mset (map q_id qs') = mset (map q_id sample_bank)"
    by simp
  then have "length qs' = 3 \<and> mset (map q_id qs') = mset [''q1'', ''q2'', ''q3'']"
    by (simp add: sample_bank_def sample_question_def)
  with qs'(1) have all: "\<exists>qs. buildExamQuestions sample_bank (\<lambda>_. half) 5 ''privacy_security''
        default_stats = Inr qs \<and>
      length qs = 3 \<and> mset (map q_id qs) = mset [''q1'', ''q2'', ''q3'']"
    by (intro exI [of _ qs']) simp
  from sample_bank_distinct sample_build_exam pool h two zero short wide all show ?thesis
    by (intro conjI) simp_all
qed

text \<open>
  C6. For a bank of questions with pairwise distinct ids, and every count, focus, statistics
  and random draws, \<^verbatim>\<open>buildExamQuestions\<close> returns questions with pairwise distinct ids.
\<close>

theorem buildExamQuestions_distinct:
  assumes "distinct (map q_id QUESTIONS)"
  shows "\<exists>qs. buildExamQuestions QUESTIONS rnd cnt focus stats = Inr qs \<and> distinct (map q_id qs)"
proof -
  let ?pool = "exam_pool QUESTIONS cnt focus"
  from buildExamQuestions_picked [of QUESTIONS rnd cnt focus stats] obtain picked k where
    b: "buildExamQuestions QUESTIONS rnd cnt focus stats
          = Inr (fst (shuffle_all rnd k (fill_remainder cnt ?pool picked (q_id ` set picked))))"
    and p: "distinct (map q_id picked)"
    by blast
  have "distinct (map q_id ?pool)"
    using assms by (rule exam_pool_distinct)
  then have "distinct (map q_id (fill_remainder cnt ?pool picked (q_id ` set picked)))"
    using p by (rule fill_remainder_distinct)
  then have "distinct (map q_id
      (fst (shuffle_all rnd k (fill_remainder cnt ?pool picked (q_id ` set picked)))))"
    by (simp only: shuffle_all_ids)
  with b show ?thesis by blast
qed

theorem buildExamQuestions_distinct_witness:
  "distinct (map q_id sample_bank) \<and>
   (\<exists>qs. buildExamQuestions sample_bank (\<lambda>_. half) 5 ''network'' default_stats = Inr qs \<and>
      map q_id qs = [''q2'', ''q1'', ''q3''] \<and> distinct (map q_id qs))"
proof -
  have v: "map_sum id (map q_id)
      (buildExamQuestions sample_bank (\<lambda>_. half) 5 ''network'' default_stats)
    = Inr [''q2'', ''q1'', ''q3'']"
    by (simp add: buildExamQuestions_def exam_pool_def focus_pool_def sample_bank_def
      sample_question_def pick_loop.simps weightedPick_def pick_weights_def or_one_def
      pick_weight_def Rep_half attemptsLimit_def fill_remainder_def Let_def
      shuffleQuestionChoices_def shuffle_def swap_def rand_index_def findIndex_def)
  from buildExamQuestions_distinct [OF sample_bank_distinct, of "\<lambda>_. half" 5 "''network''"
      default_stats]
  obtain qs where qs: "buildExamQuestions sample_bank (\<lambda>_. half) 5 ''network'' default_stats = Inr qs"
    "distinct (map q_id qs)" by blast
  with v have "map q_id qs = [''q2'', ''q1'', ''q3'']" by simp
  with qs sample_bank_distinct show ?thesis
    by (intro conjI exI [of _ qs])
qed

section \<open>Session: proofs\<close>

lemma run_snoc:
  "run QUESTIONS (es @ [(now, e)]) s =
     (case run QUESTIONS es s of Inl err \<Rightarrow> Inl err | Inr s' \<Rightarrow> step QUESTIONS now e s')"
  by (induction es arbitrary: s) (auto split: sum.splits)

lemma renderResults_fields:
  "s_mode (renderResults now s) = s_mode s" "s_focus (renderResults now s) = s_focus s"
  "s_total (renderResults now s) = s_total s" "s_questions (renderResults now s) = s_questions s"
  "s_index (renderResults now s) = s_index s" "s_answers (renderResults now s) = s_answers s"
  "s_screen (renderResults now s) = Results"
  by (simp_all add: renderResults_def Let_def)

lemma renderQuestion_fields:
  "s_mode (renderQuestion now s) = s_mode s" "s_focus (renderQuestion now s) = s_focus s"
  "s_total (renderQuestion now s) = s_total s" "s_questions (renderQuestion now s) = s_questions s"
  "s_index (renderQuestion now s) = s_index s" "s_answers (renderQuestion now s) = s_answers s"
  by (simp_all add: renderQuestion_def renderResults_fields split: option.splits)

lemma renderQuestion_screen:
  "s_screen (renderQuestion now s) =
     (case at_index (s_questions s) (s_index s) of None \<Rightarrow> Results | Some q \<Rightarrow> QuestionCard q)"
  by (simp add: renderQuestion_def renderResults_fields split: option.splits)

lemma card_ok_renderQuestion: "card_ok (renderQuestion now s)"
  by (simp add: card_ok_def renderQuestion_screen renderQuestion_fields split: option.splits)

lemma card_ok_renderResults: "card_ok (renderResults now s)"
  by (simp add: card_ok_def renderResults_fields)

lemma onChoose_cases:
  "onChoose now i s = s \<or>
   (\<exists>q. at_index (s_questions s) (s_index s) = Some q \<and>
        \<not> list_ex (\<lambda>a. a_id a = q_id q) (s_answers s) \<and>
        onChoose now i s = renderQuestion now
          (s\<lparr>s_answers := s_answers s @
               [\<lparr>a_id = q_id q, a_chosenIndex = i, a_correct = (i = q_answerIndex q),
                 a_category = q_category q\<rparr>]\<rparr>))"
  by (simp add: onChoose_def Let_def split: option.splits)

lemma onChoose_answered:
  "at_index (s_questions s) (s_index s) = Some q \<Longrightarrow>
   list_ex (\<lambda>a. a_id a = q_id q) (s_answers s) \<Longrightarrow> onChoose now i s = s"
  by (simp add: onChoose_def)

lemma onChoose_twice: "onChoose now' j (onChoose now i s) = onChoose now i s"
proof (cases "at_index (s_questions s) (s_index s)")
  case None
  then show ?thesis by (simp add: onChoose_def)
next
  case (Some q)
  show ?thesis
  proof (cases "list_ex (\<lambda>a. a_id a = q_id q) (s_answers s)")
    case True
    with Some show ?thesis by (simp add: onChoose_def)
  next
    case False
    with Some have eq: "onChoose now i s = renderQuestion now
          (s\<lparr>s_answers := s_answers s @
               [\<lparr>a_id = q_id q, a_chosenIndex = i, a_correct = (i = q_answerIndex q),
                 a_category = q_category q\<rparr>]\<rparr>)"
      by (simp add: onChoose_def Let_def)
    have "at_index (s_questions (onChoose now i s)) (s_index (onChoose now i s)) = Some q"
      using Some by (simp add: eq renderQuestion_fields)
    moreover have "list_ex (\<lambda>a. a_id a = q_id q) (s_answers (onChoose now i s))"
      by (simp add: eq renderQuestion_fields)
    ultimately show ?thesis
      by (rule onChoose_answered)
  qed
qed

lemma card_ok_onChoose: "card_ok s \<Longrightarrow> card_ok (onChoose now i s)"
  using onChoose_cases [of now i s] by (auto simp: card_ok_renderQuestion)

lemma card_ok_step: "step QUESTIONS now e s = Inr s' \<Longrightarrow> card_ok s \<Longrightarrow> card_ok s'"
proof (cases e)
  case (Start mode cnt focus rnd)
  assume "step QUESTIONS now e s = Inr s'"
  with Start show ?thesis
    by (auto simp: startExam_def Let_def card_ok_renderQuestion split: sum.splits)
next
  case (Choose i)
  assume "step QUESTIONS now e s = Inr s'" "card_ok s"
  with Choose show ?thesis
    by (auto simp: card_ok_onChoose split: screen.splits)
next
  case Back
  assume "step QUESTIONS now e s = Inr s'" "card_ok s"
  with Back show ?thesis
    by (auto simp: onBack_def card_ok_renderQuestion split: screen.splits)
next
  case Next
  assume "step QUESTIONS now e s = Inr s'" "card_ok s"
  with Next show ?thesis
    by (auto simp: onNext_def Let_def card_ok_renderQuestion split: screen.splits if_splits)
next
  case ReviewAnswers
  assume "step QUESTIONS now e s = Inr s'" "card_ok s"
  with ReviewAnswers show ?thesis
    by (auto simp: onReview_def card_ok_def split: screen.splits)
next
  case BackToResults
  assume "step QUESTIONS now e s = Inr s'" "card_ok s"
  with BackToResults show ?thesis
    by (auto simp: card_ok_renderResults split: screen.splits)
next
  case ResetStats
  assume "step QUESTIONS now e s = Inr s'"
  with ResetStats show ?thesis
    by (auto simp: onResetStats_def card_ok_def)
qed

lemma answers_onChoose:
  assumes "distinct (map a_id (s_answers s))"
  shows "distinct (map a_id (s_answers (onChoose now i s)))"
  using onChoose_cases [of now i s]
proof (elim disjE exE conjE)
  assume "onChoose now i s = s"
  with assms show ?thesis by simp
next
  fix q
  assume fresh: "\<not> list_ex (\<lambda>a. a_id a = q_id q) (s_answers s)"
    and eq: "onChoose now i s = renderQuestion now
          (s\<lparr>s_answers := s_answers s @
               [\<lparr>a_id = q_id q, a_chosenIndex = i, a_correct = (i = q_answerIndex q),
                 a_category = q_category q\<rparr>]\<rparr>)"
  from fresh have "q_id q \<notin> set (map a_id (s_answers s))"
    by (auto simp: list_ex_iff)
  with assms show ?thesis
    by (simp add: eq renderQuestion_fields)
qed

lemma answers_step:
  "step QUESTIONS now e s = Inr s' \<Longrightarrow> distinct (map a_id (s_answers s)) \<Longrightarrow>
   distinct (map a_id (s_answers s'))"
proof (cases e)
  case (Start mode cnt focus rnd)
  assume "step QUESTIONS now e s = Inr s'"
  with Start show ?thesis
    by (auto simp: startExam_def Let_def renderQuestion_fields split: sum.splits)
next
  case (Choose i)
  assume "step QUESTIONS now e s = Inr s'" "distinct (map a_id (s_answers s))"
  with Choose show ?thesis
    by (auto simp: answers_onChoose split: screen.splits)
next
  case Back
  assume "step QUESTIONS now e s = Inr s'" "distinct (map a_id (s_answers s))"
  with Back show ?thesis
    by (auto simp: onBack_def renderQuestion_fields split: screen.splits)
next
  case Next
  assume "step QUESTIONS now e s = Inr s'" "distinct (map a_id (s_answers s))"
  with Next show ?thesis
    by (auto simp: onNext_def Let_def renderQuestion_fields split: screen.splits if_splits)
next
  case ReviewAnswers
  assume "step QUESTIONS now e s = Inr s'" "distinct (map a_id (s_answers s))"
  with ReviewAnswers show ?thesis
    by (auto simp: onReview_def split: screen.splits)
next
  case BackToResults
  assume "step QUESTIONS now e s = Inr s'" "distinct (map a_id (s_answers s))"
  with BackToResults show ?thesis
    by (auto simp: renderResults_fields split: screen.splits)
next
  case ResetStats
  assume "step QUESTIONS now e s = Inr s'" "distinct (map a_id (s_answers s))"
  with ResetStats show ?thesis
    by (auto simp: onResetStats_def)
qed

lemma run_invariant:
  assumes step: "\<And>now e s s'. step QUESTIONS now e s = Inr s' \<Longrightarrow> P s \<Longrightarrow> P s'"
  shows "run QUESTIONS es s = Inr s' \<Longrightarrow> P s \<Longrightarrow> P s'"
proof (induction es arbitrary: s)
  case Nil
  then show ?case by simp
next
  case (Cons x es)
  obtain now e where x: "x = (now, e)" by (cases x)
  from Cons.prems(1) obtain s1 where s1: "step QUESTIONS now e s = Inr s1"
      "run QUESTIONS es s1 = Inr s'"
    by (auto simp: x split: sum.splits)
  from step [OF s1(1) Cons.prems(2)] have "P s1" .
  with s1(2) show ?case by (rule Cons.IH)
qed

lemma card_ok_run: "run QUESTIONS es (initial_state loaded) = Inr s \<Longrightarrow> card_ok s"
proof -
  assume r: "run QUESTIONS es (initial_state loaded) = Inr s"
  have "card_ok (initial_state loaded)"
    by (simp add: card_ok_def initial_state_def)
  with r show ?thesis
    by (rule run_invariant [where P = card_ok, rotated]) (rule card_ok_step)
qed

lemma answers_run:
  "run QUESTIONS es (initial_state loaded) = Inr s \<Longrightarrow> distinct (map a_id (s_answers s))"
proof -
  assume r: "run QUESTIONS es (initial_state loaded) = Inr s"
  have "distinct (map a_id (s_answers (initial_state loaded)))"
    by (simp add: initial_state_def)
  with r show ?thesis
    by (rule run_invariant [where P = "\<lambda>s. distinct (map a_id (s_answers s))", rotated])
      (rule answers_step)
qed

lemma sample_run_start:
  "run sample_bank [(0, Start mode 2 ''all'' (\<lambda>_. half))] (initial_state default_stats)
     = Inr (sample_session mode)"
  by (simp add: startExam_def sample_build_exam initial_state_def renderQuestion_def
      sample_session_def at_index_def) (simp add: sample_exam_def)

lemma next_exam:
  "s_screen s = QuestionCard q \<Longrightarrow> s_mode s = ''exam'' \<Longrightarrow>
   \<not> list_ex (\<lambda>a. a_id a = q_id q) (s_answers s) \<Longrightarrow> step QUESTIONS now Next s = Inr s"
  by (simp add: onNext_def)

lemma next_advances:
  "s_screen s = QuestionCard q \<Longrightarrow>
   s_mode s \<noteq> ''exam'' \<or> list_ex (\<lambda>a. a_id a = q_id q) (s_answers s) \<Longrightarrow>
   \<exists>s'. step QUESTIONS now Next s = Inr s' \<and> s_index s' = s_index s + 1"
  by (auto simp: onNext_def renderQuestion_fields)

text \<open>
  C3. In every state reached from the initial one by any sequence of events, on a question
  card: the card shows the current question \<^verbatim>\<open>state.questions[state.index]\<close>; in exam mode a
  click on Next while that question has no recorded answer changes nothing of the state; in
  practice mode (in any mode but exam, and in exam mode once the question is answered) it
  adds one to \<^verbatim>\<open>state.index\<close>.
\<close>

theorem next_gating:
  assumes "run QUESTIONS es (initial_state loaded) = Inr s" and "s_screen s = QuestionCard q"
  shows "at_index (s_questions s) (s_index s) = Some q \<and>
    (s_mode s = ''exam'' \<and> \<not> list_ex (\<lambda>a. a_id a = q_id q) (s_answers s) \<longrightarrow>
       step QUESTIONS now Next s = Inr s) \<and>
    (s_mode s = ''practice'' \<longrightarrow>
       (\<exists>s'. step QUESTIONS now Next s = Inr s' \<and> s_index s' = s_index s + 1)) \<and>
    (s_mode s \<noteq> ''exam'' \<or> list_ex (\<lambda>a. a_id a = q_id q) (s_answers s) \<longrightarrow>
       (\<exists>s'. step QUESTIONS now Next s = Inr s' \<and> s_index s' = s_index s + 1))"
proof -
  have "card_ok s"
    using assms(1) by (rule card_ok_run)
  with assms(2) have "at_index (s_questions s) (s_index s) = Some q"
    by (simp add: card_ok_def)
  moreover have "s_mode s = ''practice'' \<longrightarrow>
       (\<exists>s'. step QUESTIONS now Next s = Inr s' \<and> s_index s' = s_index s + 1)"
    using next_advances [OF assms(2), of QUESTIONS now] by simp
  ultimately show ?thesis
    using next_exam [OF assms(2), of QUESTIONS now] next_advances [OF assms(2), of QUESTIONS now]
    by blast
qed

theorem next_gating_witness:
  "run sample_bank [(0, Start ''exam'' 2 ''all'' (\<lambda>_. half))] (initial_state default_stats)
     = Inr (sample_session ''exam'') \<and>
   s_screen (sample_session ''exam'') = QuestionCard (sample_exam ! 0) \<and>
   s_mode (sample_session ''exam'') = ''exam'' \<and>
   \<not> list_ex (\<lambda>a. a_id a = q_id (sample_exam ! 0)) (s_answers (sample_session ''exam'')) \<and>
   step sample_bank 1 Next (sample_session ''exam'') = Inr (sample_session ''exam'') \<and>
   run sample_bank [(0, Start ''practice'' 2 ''all'' (\<lambda>_. half))] (initial_state default_stats)
     = Inr (sample_session ''practice'') \<and>
   s_mode (sample_session ''practice'') = ''practice'' \<and>
   (\<exists>s'. step sample_bank 1 Next (sample_session ''practice'') = Inr s' \<and>
      s_index s' = s_index (sample_session ''practice'') + 1)"
proof -
  have sc: "s_screen (sample_session mode) = QuestionCard (sample_exam ! 0)" for mode
    by (simp add: sample_session_def sample_exam_def)
  have m: "s_mode (sample_session mode) = mode" for mode
    by (simp add: sample_session_def)
  have na: "\<not> list_ex (\<lambda>a. a_id a = q_id (sample_exam ! 0)) (s_answers (sample_session mode))"
    for mode
    by (simp add: sample_session_def)
  from next_gating [OF sample_run_start sc, of "''exam''" 1] m [of "''exam''"] na [of "''exam''"]
  have e: "step sample_bank 1 Next (sample_session ''exam'') = Inr (sample_session ''exam'')"
    by simp
  from next_gating [OF sample_run_start sc, of "''practice''" 1] m [of "''practice''"]
  have p: "\<exists>s'. step sample_bank 1 Next (sample_session ''practice'') = Inr s' \<and>
      s_index s' = s_index (sample_session ''practice'') + 1"
    by simp
  show ?thesis
    using sample_run_start sc m na e p by (intro conjI)
qed

text \<open>
  C4. Choosing an answer for a question that already has a recorded answer changes nothing
  of the state, in every mode and without an exception: a second choice after a first one
  leaves the state of the first (whatever the two choices and the state), and so does any
  choice while the current question has a recorded answer. In every state reached from
  the initial one, the recorded answers have pairwise distinct question ids.
\<close>

theorem choose_once:
  "(step QUESTIONS now (Choose i) s = Inr s1 \<longrightarrow> step QUESTIONS now' (Choose j) s1 = Inr s1) \<and>
   (at_index (s_questions s) (s_index s) = Some q \<and>
    list_ex (\<lambda>a. a_id a = q_id q) (s_answers s) \<longrightarrow>
      step QUESTIONS now (Choose i) s = Inr s) \<and>
   (run QUESTIONS es (initial_state loaded) = Inr s \<longrightarrow> distinct (map a_id (s_answers s)))"
proof (intro conjI impI)
  assume st: "step QUESTIONS now (Choose i) s = Inr s1"
  show "step QUESTIONS now' (Choose j) s1 = Inr s1"
  proof (cases "\<exists>q. s_screen s = QuestionCard q")
    case True
    with st have s1: "s1 = onChoose now i s" by auto
    have "onChoose now' j s1 = s1"
      unfolding s1 by (rule onChoose_twice)
    then show ?thesis
      by (simp split: screen.splits)
  next
    case False
    with st have "s1 = s" by (auto split: screen.splits)
    with False show ?thesis by (auto split: screen.splits)
  qed
next
  assume "at_index (s_questions s) (s_index s) = Some q \<and>
    list_ex (\<lambda>a. a_id a = q_id q) (s_answers s)"
  then have "onChoose now i s = s"
    by (simp add: onChoose_answered)
  then show "step QUESTIONS now (Choose i) s = Inr s"
    by (simp split: screen.splits)
next
  assume "run QUESTIONS es (initial_state loaded) = Inr s"
  then show "distinct (map a_id (s_answers s))"
    by (rule answers_run)
qed

lemma sample_choose:
  "step sample_bank now (Choose 1) (sample_session mode) = Inr (sample_answered mode)"
  by (simp add: sample_session_def sample_answered_def onChoose_def renderQuestion_def
      at_index_def sample_exam_def sample_question_def)

theorem choose_once_witness:
  "step sample_bank 1 (Choose 1) (sample_session ''practice'') = Inr (sample_answered ''practice'') \<and>
   step sample_bank 2 (Choose 0) (sample_answered ''practice'') = Inr (sample_answered ''practice'') \<and>
   at_index (s_questions (sample_answered ''exam'')) (s_index (sample_answered ''exam''))
     = Some (sample_exam ! 0) \<and>
   list_ex (\<lambda>a. a_id a = q_id (sample_exam ! 0)) (s_answers (sample_answered ''exam'')) \<and>
   step sample_bank 2 (Choose 2) (sample_answered ''exam'') = Inr (sample_answered ''exam'') \<and>
   run sample_bank [(0, Start ''exam'' 2 ''all'' (\<lambda>_. half)), (1, Choose 1)]
     (initial_state default_stats) = Inr (sample_answered ''exam'') \<and>
   distinct (map a_id (s_answers (sample_answered ''exam'')))"
proof -
  have "run sample_bank ([(0, Start ''exam'' 2 ''all'' (\<lambda>_. half))] @ [(1, Choose 1)])
     (initial_state default_stats) = Inr (sample_answered ''exam'')"
    by (simp only: run_snoc sample_run_start sum.case sample_choose)
  then have r: "run sample_bank [(0, Start ''exam'' 2 ''all'' (\<lambda>_. half)), (1, Choose 1)]
     (initial_state default_stats) = Inr (sample_answered ''exam'')"
    by (simp only: append.simps)
  have cur: "at_index (s_questions (sample_answered ''exam'')) (s_index (sample_answered ''exam''))
     = Some (sample_exam ! 0)"
    by (simp add: sample_answered_def sample_session_def at_index_def sample_exam_def)
  have ans: "list_ex (\<lambda>a. a_id a = q_id (sample_exam ! 0)) (s_answers (sample_answered ''exam''))"
    by (simp add: sample_answered_def sample_session_def sample_exam_def sample_question_def)
  note w1 = choose_once [where QUESTIONS = sample_bank and now = 1 and i = 1
      and s = "sample_session ''practice''" and ?s1.0 = "sample_answered ''practice''"
      and now' = 2 and j = 0]
  note w2 = choose_once [where QUESTIONS = sample_bank and now = 2 and i = 2
      and s = "sample_answered ''exam''" and q = "sample_exam ! 0"
      and es = "[(0, Start ''exam'' 2 ''all'' (\<lambda>_. half)), (1, Choose 1)]"
      and loaded = default_stats]
  have a: "step sample_bank 2 (Choose 0) (sample_answered ''practice'')
      = Inr (sample_answered ''practice'')"
    using w1 sample_choose [of 1 "''practice''"] by blast
  have b: "step sample_bank 2 (Choose 2) (sample_answered ''exam'') = Inr (sample_answered ''exam'')"
    using w2 cur ans by blast
  have c: "distinct (map a_id (s_answers (sample_answered ''exam'')))"
    using w2 r by blast
  show ?thesis
    using sample_choose [of 1 "''practice''"] a cur ans b r c by (intro conjI)
qed

section \<open>Finalization: proofs\<close>

lemma renderResults_history:
  "st_history (s_stats (renderResults now s)) =
     st_history (s_stats s) @
       [\<lparr>at_ts = now, at_score = clampInt (correctCount (s_answers s)) 0 (s_total s),
         at_total = s_total s, at_mode = s_mode s, at_focus = s_focus s\<rparr>]"
  by (simp add: renderResults_def Let_def)

lemma renderQuestion_cases:
  "(\<exists>q. renderQuestion now s = s\<lparr>s_screen := QuestionCard q\<rparr>) \<or>
   renderQuestion now s = renderResults now s"
  by (cases "at_index (s_questions s) (s_index s)") (auto simp: renderQuestion_def)

lemma session_inv_renderResults:
  assumes "s_total s = cnt" "st_history (s_stats s) = h0 @ new"
    "list_all (\<lambda>a. at_total a = cnt \<and>
        at_score a = clampInt (correctCount (s_answers s)) 0 cnt) new"
  shows "session_inv cnt h0 (renderResults now s)"
  unfolding session_inv_def
proof (intro conjI exI [of _ "new @
       [\<lparr>at_ts = now, at_score = clampInt (correctCount (s_answers s)) 0 (s_total s),
         at_total = s_total s, at_mode = s_mode s, at_focus = s_focus s\<rparr>]"])
  show "s_total (renderResults now s) = cnt"
    using assms(1) by (simp add: renderResults_fields)
  show "st_history (s_stats (renderResults now s)) = h0 @ new @
       [\<lparr>at_ts = now, at_score = clampInt (correctCount (s_answers s)) 0 (s_total s),
         at_total = s_total s, at_mode = s_mode s, at_focus = s_focus s\<rparr>]"
    using assms(2) by (simp add: renderResults_history)
  show "list_all (\<lambda>a. at_total a = cnt \<and>
        at_score a = clampInt (correctCount (s_answers (renderResults now s))) 0 cnt)
      (new @ [\<lparr>at_ts = now, at_score = clampInt (correctCount (s_answers s)) 0 (s_total s),
         at_total = s_total s, at_mode = s_mode s, at_focus = s_focus s\<rparr>])"
    using assms(1,3) by (simp add: renderResults_fields)
  show "case s_screen (renderResults now s) of
      QuestionCard q \<Rightarrow> new @
       [\<lparr>at_ts = now, at_score = clampInt (correctCount (s_answers s)) 0 (s_total s),
         at_total = s_total s, at_mode = s_mode s, at_focus = s_focus s\<rparr>] = []
    | NoExam \<Rightarrow> False | _ \<Rightarrow> new @
       [\<lparr>at_ts = now, at_score = clampInt (correctCount (s_answers s)) 0 (s_total s),
         at_total = s_total s, at_mode = s_mode s, at_focus = s_focus s\<rparr>] \<noteq> []"
    by (simp add: renderResults_fields)
qed

lemma session_inv_renderQuestion:
  assumes "s_total s = cnt" "st_history (s_stats s) = h0"
  shows "session_inv cnt h0 (renderQuestion now s)"
  using renderQuestion_cases [of now s]
proof (elim disjE exE)
  fix q assume "renderQuestion now s = s\<lparr>s_screen := QuestionCard q\<rparr>"
  with assms show ?thesis
    by (simp add: session_inv_def)
next
  assume "renderQuestion now s = renderResults now s"
  moreover have "session_inv cnt h0 (renderResults now s)"
    using assms by (intro session_inv_renderResults [where new = "[]"]) simp_all
  ultimately show ?thesis by simp
qed

lemma session_inv_card:
  "session_inv cnt h0 s \<Longrightarrow> s_screen s = QuestionCard q \<Longrightarrow>
   s_total s = cnt \<and> st_history (s_stats s) = h0"
  by (auto simp: session_inv_def)

lemma session_inv_startExam:
  "startExam QUESTIONS now mode cnt focus rnd s0 = Inr s1 \<Longrightarrow>
   session_inv cnt (st_history (s_stats s0)) s1"
  by (auto simp: startExam_def Let_def split: sum.splits intro!: session_inv_renderQuestion)

lemma session_inv_step:
  assumes st: "step QUESTIONS now e s = Inr s'" and ev: "session_event e"
    and inv: "session_inv cnt h0 s"
  shows "session_inv cnt h0 s'"
proof (cases "\<exists>q. s_screen s = QuestionCard q")
  case True
  then obtain q where q: "s_screen s = QuestionCard q" ..
  from session_inv_card [OF inv q] have tot: "s_total s = cnt" and h: "st_history (s_stats s) = h0"
    by simp_all
  show ?thesis
  proof (cases e)
    case (Choose i)
    with st q have s': "s' = onChoose now i s" by simp
    from onChoose_cases [of now i s] show ?thesis
    proof (elim disjE exE conjE)
      assume "onChoose now i s = s"
      with inv s' show ?thesis by simp
    next
      fix p assume "onChoose now i s = renderQuestion now
          (s\<lparr>s_answers := s_answers s @
               [\<lparr>a_id = q_id p, a_chosenIndex = i, a_correct = (i = q_answerIndex p),
                 a_category = q_category p\<rparr>]\<rparr>)"
      with s' tot h show ?thesis
        by (simp add: session_inv_renderQuestion)
    qed
  next
    case Back
    with st q have "s' = renderQuestion now (s\<lparr>s_index := max 0 (s_index s - 1)\<rparr>)"
      by (simp add: onBack_def)
    with tot h show ?thesis
      by (simp add: session_inv_renderQuestion)
  next
    case Next
    with st q have "s' = s \<or> s' = renderQuestion now (s\<lparr>s_index := s_index s + 1\<rparr>)"
      by (auto simp: onNext_def Let_def split: if_splits)
    with inv tot h show ?thesis
      by (auto simp: session_inv_renderQuestion)
  next
    case ReviewAnswers
    with st q inv show ?thesis by simp
  next
    case BackToResults
    with st q inv show ?thesis by simp
  next
    case (Start mode c focus rnd)
    with ev show ?thesis by simp
  next
    case ResetStats
    with ev show ?thesis by simp
  qed
next
  case False
  from inv obtain new where new: "s_total s = cnt" "st_history (s_stats s) = h0 @ new"
    "list_all (\<lambda>a. at_total a = cnt \<and>
        at_score a = clampInt (correctCount (s_answers s)) 0 cnt) new"
    by (auto simp: session_inv_def)
  show ?thesis
  proof (cases e)
    case (Choose i)
    with st False have "s' = s" by (auto split: screen.splits)
    with inv show ?thesis by simp
  next
    case Back
    with st False have "s' = s" by (auto split: screen.splits)
    with inv show ?thesis by simp
  next
    case Next
    with st False have "s' = s" by (auto split: screen.splits)
    with inv show ?thesis by simp
  next
    case ReviewAnswers
    with st have "s' = s \<or> s_screen s = Results \<and> s' = s\<lparr>s_index := 0, s_screen := Review\<rparr>"
      by (auto simp: onReview_def split: screen.splits)
    with inv show ?thesis
      by (auto simp: session_inv_def)
  next
    case BackToResults
    with st have "s' = s \<or> s' = renderResults now s"
      by (auto split: screen.splits)
    with inv session_inv_renderResults [OF new, of now] show ?thesis
      by auto
  next
    case (Start mode c focus rnd)
    with ev show ?thesis by simp
  next
    case ResetStats
    with ev show ?thesis by simp
  qed
qed

lemma session_inv_run:
  "run QUESTIONS es s = Inr s' \<Longrightarrow> list_all (\<lambda>(now, e). session_event e) es \<Longrightarrow>
   session_inv cnt h0 s \<Longrightarrow> session_inv cnt h0 s'"
proof (induction es arbitrary: s)
  case Nil
  then show ?case by simp
next
  case (Cons x es)
  obtain now e where x: "x = (now, e)" by (cases x)
  from Cons.prems(1) obtain s1 where s1: "step QUESTIONS now e s = Inr s1"
      "run QUESTIONS es s1 = Inr s'"
    by (auto simp: x split: sum.splits)
  from Cons.prems(2) have ev: "session_event e" "list_all (\<lambda>(now, e). session_event e) es"
    by (simp_all add: x)
  from session_inv_step [OF s1(1) ev(1) Cons.prems(3)] have "session_inv cnt h0 s1" .
  with s1(2) ev(2) show ?case by (intro Cons.IH)
qed

text \<open>
  C10. From \<^verbatim>\<open>startExam\<close> with the requested count \<open>cnt\<close>, through any events of the session:
  \<^verbatim>\<open>state.total\<close> is \<open>cnt\<close> (whatever the number of questions built); attempts are recorded
  exactly when the results or the review are shown; and every attempt recorded has the
  total \<open>cnt\<close> and the score \<^verbatim>\<open>clampInt(correctCount, 0, cnt)\<close> of the answers, which is
  \<open>max 0 (min cnt correctCount)\<close>.
\<close>

theorem attempt_total:
  assumes "startExam QUESTIONS now0 mode cnt focus rnd s0 = Inr s1"
    and "run QUESTIONS es s1 = Inr s"
    and "list_all (\<lambda>(now, e). session_event e) es"
  shows "s_total s = cnt \<and>
    (\<exists>new. st_history (s_stats s) = st_history (s_stats s0) @ new \<and>
       (new \<noteq> [] \<longleftrightarrow> s_screen s = Results \<or> s_screen s = Review) \<and>
       list_all (\<lambda>a. at_total a = cnt \<and>
                      at_score a = clampInt (correctCount (s_answers s)) 0 cnt \<and>
                      at_score a = max 0 (min cnt (correctCount (s_answers s)))) new)"
proof -
  have "session_inv cnt (st_history (s_stats s0)) s1"
    using assms(1) by (rule session_inv_startExam)
  with assms(2,3) have "session_inv cnt (st_history (s_stats s0)) s"
    by (rule session_inv_run)
  then obtain new where new: "s_total s = cnt" "st_history (s_stats s) = st_history (s_stats s0) @ new"
    "list_all (\<lambda>a. at_total a = cnt \<and>
        at_score a = clampInt (correctCount (s_answers s)) 0 cnt) new"
    "case s_screen s of QuestionCard q \<Rightarrow> new = [] | NoExam \<Rightarrow> False | _ \<Rightarrow> new \<noteq> []"
    by (auto simp: session_inv_def)
  from new(4) have "new \<noteq> [] \<longleftrightarrow> s_screen s = Results \<or> s_screen s = Review"
    by (cases "s_screen s") simp_all
  moreover from new(3) have "list_all (\<lambda>a. at_total a = cnt \<and>
                      at_score a = clampInt (correctCount (s_answers s)) 0 cnt \<and>
                      at_score a = max 0 (min cnt (correctCount (s_answers s)))) new"
    by (simp add: clampInt_def list_all_iff)
  ultimately show ?thesis
    using new(1,2) by blast
qed

lemmas sample_defs =
  buildExamQuestions_def exam_pool_def focus_pool_def sample_bank_def
  sample_question_def pick_loop.simps weightedPick_def pick_weights_def or_one_def
  pick_weight_def Rep_half attemptsLimit_def fill_remainder_def Let_def
  shuffleQuestionChoices_def shuffle_def swap_def rand_index_def findIndex_def
  startExam_def initial_state_def renderQuestion_def renderResults_def at_index_def
  onChoose_def onNext_def onBack_def onReview_def correctCount_def clampInt_def
  record_answer_def default_stats_def DEFAULT_BASELINE_def DEFAULT_BASELINE_entries_def

lemma sample_short_session:
  "\<exists>s1 s. startExam sample_bank 0 ''practice'' 5 ''all'' (\<lambda>_. half) (initial_state default_stats)
       = Inr s1 \<and>
     map q_id (s_questions s1) = [''q2'', ''q1'', ''q3''] \<and>
     run sample_bank [(1, Choose 1), (2, Next), (3, Next), (4, Next)] s1 = Inr s \<and>
     s_screen s = Results \<and>
     st_history (s_stats s) =
       [\<lparr>at_ts = 4, at_score = 1, at_total = 5, at_mode = ''practice'', at_focus = ''all''\<rparr>]"
  by (simp add: sample_defs)

theorem attempt_total_witness:
  "\<exists>s1 s. startExam sample_bank 0 ''practice'' 5 ''all'' (\<lambda>_. half) (initial_state default_stats)
       = Inr s1 \<and>
     map q_id (s_questions s1) = [''q2'', ''q1'', ''q3''] \<and>
     run sample_bank [(1, Choose 1), (2, Next), (3, Next), (4, Next)] s1 = Inr s \<and>
     list_all (\<lambda>(now, e). session_event e)
       [(1::int, Choose 1), (2, Next), (3, Next), (4, Next)] \<and>
     s_screen s = Results \<and>
     st_history (s_stats s) =
       [\<lparr>at_ts = 4, at_score = 1, at_total = 5, at_mode = ''practice'', at_focus = ''all''\<rparr>] \<and>
     s_total s = 5"
proof -
  from sample_short_session obtain s1 s where
    a: "startExam sample_bank 0 ''practice'' 5 ''all'' (\<lambda>_. half) (initial_state default_stats)
       = Inr s1"
    and b: "map q_id (s_questions s1) = [''q2'', ''q1'', ''q3'']"
    and c: "run sample_bank [(1, Choose 1), (2, Next), (3, Next), (4, Next)] s1 = Inr s"
    and d: "s_screen s = Results"
    and e: "st_history (s_stats s) =
       [\<lparr>at_ts = 4, at_score = 1, at_total = 5, at_mode = ''practice'', at_focus = ''all''\<rparr>]"
    by (elim exE conjE)
  have ev: "list_all (\<lambda>(now, e). session_event e) [(1::int, Choose 1), (2, Next), (3, Next), (4, Next)]"
    by simp
  from attempt_total [OF a c ev] have tot: "s_total s = 5"
    by (rule conjunct1)
  show ?thesis
    apply (rule exI [of _ s1])
    apply (rule exI [of _ s])
    using a b c d e ev tot by (intro conjI)
qed

text \<open>
  C1, where the code differs. A session of two questions is answered and finished: one
  attempt is recorded and the two answers are counted in their category. Showing the
  review and going back to the results calls \<^verbatim>\<open>renderResults\<close> again: a second attempt is
  recorded and the same answers are counted a second time. Only the best score stays.
\<close>

theorem review_back_records_again:
  "\<exists>s s'. run sample_bank
         [(0, Start ''exam'' 2 ''all'' (\<lambda>_. half)), (1, Choose 1), (2, Next), (3, Choose 0),
          (4, Next)] (initial_state default_stats) = Inr s \<and>
     s_screen s = Results \<and>
     length (st_history (s_stats s)) = 1 \<and>
     st_perCategory (s_stats s) ''network'' = Some \<lparr>c_correct = 13, c_total = 16\<rparr> \<and>
     run sample_bank [(5, ReviewAnswers), (6, BackToResults)] s = Inr s' \<and>
     s_screen s' = Results \<and>
     s_answers s' = s_answers s \<and>
     length (st_history (s_stats s')) = 2 \<and>
     st_perCategory (s_stats s') ''network'' = Some \<lparr>c_correct = 14, c_total = 18\<rparr> \<and>
     st_best (s_stats s') = st_best (s_stats s)"
  by (simp add: sample_defs)

section \<open>Persisted statistics: proofs\<close>

lemma seeded_default_shaped: "stats_shaped seeded_default"
  by (simp add: seeded_default_def stats_shaped_def DEFAULT_BASELINE_json_def)

lemma nullish_assign_primitive: "\<not> is_object v \<Longrightarrow> \<exists>e. nullish_assign v k d = Inl e"
  by (cases v) (simp_all add: nullish_assign_def)

lemma nullish_assign_object:
  "is_object v \<Longrightarrow>
   \<exists>v'. nullish_assign v k d = Inr v' \<and> is_object v' \<and>
     (\<forall>k'. k' \<noteq> k \<longrightarrow> get_prop v' k' = get_prop v k') \<and>
     (get_prop v k = Inr None \<or> get_prop v k = Inr (Some JNull) \<longrightarrow>
        get_prop v' k = Inr (Some d)) \<and>
     (\<forall>x. get_prop v k = Inr (Some x) \<and> x \<noteq> JNull \<longrightarrow> get_prop v' k = Inr (Some x))"
proof (cases v)
  case (JObj entries)
  show ?thesis
  proof (cases "map_of entries k")
    case None
    with JObj show ?thesis by (simp add: nullish_assign_def update_conv')
  next
    case (Some x)
    with JObj show ?thesis by (cases x) (simp_all add: nullish_assign_def update_conv')
  qed
next
  case (JArr elems props)
  show ?thesis
  proof (cases "map_of props k")
    case None
    with JArr show ?thesis by (simp add: nullish_assign_def update_conv')
  next
    case (Some x)
    with JArr show ?thesis by (cases x) (simp_all add: nullish_assign_def update_conv')
  qed
qed simp_all

lemma loadStats_try_primitive:
  "JSON_parse text = Inr p \<Longrightarrow> \<not> is_object p \<Longrightarrow> \<exists>e. loadStats_try JSON_parse text = Inl e"
  using nullish_assign_primitive [of p "''best''" JNull]
  by (auto simp: loadStats_try_def)

lemma loadStats_try_object:
  assumes parse: "JSON_parse text = Inr p" and obj: "is_object p"
  shows "\<exists>v. loadStats_try JSON_parse text = Inr v \<and> is_object v \<and>
     (\<forall>k d. (k, d) \<in> set [(''best'', JNull), (''history'', JArr [] []),
                            (''perCategory'', DEFAULT_BASELINE_json)] \<longrightarrow>
        (get_prop p k = Inr None \<or> get_prop p k = Inr (Some JNull) \<longrightarrow>
           get_prop v k = Inr (Some d)) \<and>
        (\<forall>x. get_prop p k = Inr (Some x) \<and> x \<noteq> JNull \<longrightarrow> get_prop v k = Inr (Some x))) \<and>
     (\<forall>k. k \<noteq> ''best'' \<and> k \<noteq> ''history'' \<and> k \<noteq> ''perCategory'' \<longrightarrow>
        get_prop v k = get_prop p k)"
proof -
  from nullish_assign_object [OF obj, of "''best''" JNull] obtain v1 where
    v1: "nullish_assign p ''best'' JNull = Inr v1" "is_object v1"
      "\<And>k'. k' \<noteq> ''best'' \<Longrightarrow> get_prop v1 k' = get_prop p k'"
      "get_prop p ''best'' = Inr None \<or> get_prop p ''best'' = Inr (Some JNull) \<Longrightarrow>
         get_prop v1 ''best'' = Inr (Some JNull)"
      "\<And>x. get_prop p ''best'' = Inr (Some x) \<Longrightarrow> x \<noteq> JNull \<Longrightarrow>
         get_prop v1 ''best'' = Inr (Some x)"
    by blast
  from nullish_assign_object [OF v1(2), of "''history''" "JArr [] []"] obtain v2 where
    v2: "nullish_assign v1 ''history'' (JArr [] []) = Inr v2" "is_object v2"
      "\<And>k'. k' \<noteq> ''history'' \<Longrightarrow> get_prop v2 k' = get_prop v1 k'"
      "get_prop v1 ''history'' = Inr None \<or> get_prop v1 ''history'' = Inr (Some JNull) \<Longrightarrow>
         get_prop v2 ''history'' = Inr (Some (JArr [] []))"
      "\<And>x. get_prop v1 ''history'' = Inr (Some x) \<Longrightarrow> x \<noteq> JNull \<Longrightarrow>
         get_prop v2 ''history'' = Inr (Some x)"
    by blast
  from nullish_assign_object [OF v2(2), of "''perCategory''" DEFAULT_BASELINE_json] obtain v3 where
    v3: "nullish_assign v2 ''perCategory'' DEFAULT_BASELINE_json = Inr v3" "is_object v3"
      "\<And>k'. k' \<noteq> ''perCategory'' \<Longrightarrow> get_prop v3 k' = get_prop v2 k'"
      "get_prop v2 ''perCategory'' = Inr None \<or> get_prop v2 ''perCategory'' = Inr (Some JNull) \<Longrightarrow>
         get_prop v3 ''perCategory'' = Inr (Some DEFAULT_BASELINE_json)"
      "\<And>x. get_prop v2 ''perCategory'' = Inr (Some x) \<Longrightarrow> x \<noteq> JNull \<Longrightarrow>
         get_prop v3 ''perCategory'' = Inr (Some x)"
    by blast
  have run: "loadStats_try JSON_parse text = Inr v3"
    by (simp add: loadStats_try_def parse v1(1) v2(1) v3(1))
  have h1: "get_prop v1 ''history'' = get_prop p ''history''"
    by (rule v1(3)) simp
  have c1: "get_prop v2 ''perCategory'' = get_prop p ''perCategory''"
    using v2(3) [of "''perCategory''"] v1(3) [of "''perCategory''"] by simp
  have b3: "get_prop v3 ''best'' = get_prop v1 ''best''"
    using v3(3) [of "''best''"] v2(3) [of "''best''"] by simp
  have h3: "get_prop v3 ''history'' = get_prop v2 ''history''"
    by (rule v3(3)) simp
  have best: "(get_prop p ''best'' = Inr None \<or> get_prop p ''best'' = Inr (Some JNull) \<longrightarrow>
           get_prop v3 ''best'' = Inr (Some JNull)) \<and>
        (\<forall>x. get_prop p ''best'' = Inr (Some x) \<and> x \<noteq> JNull \<longrightarrow>
           get_prop v3 ''best'' = Inr (Some x))"
    using v1(4) v1(5) by (simp add: b3)
  have hist: "(get_prop p ''history'' = Inr None \<or> get_prop p ''history'' = Inr (Some JNull) \<longrightarrow>
           get_prop v3 ''history'' = Inr (Some (JArr [] []))) \<and>
        (\<forall>x. get_prop p ''history'' = Inr (Some x) \<and> x \<noteq> JNull \<longrightarrow>
           get_prop v3 ''history'' = Inr (Some x))"
    using v2(4) v2(5) by (simp add: h3 h1)
  have cat: "(get_prop p ''perCategory'' = Inr None \<or>
         get_prop p ''perCategory'' = Inr (Some JNull) \<longrightarrow>
           get_prop v3 ''perCategory'' = Inr (Some DEFAULT_BASELINE_json)) \<and>
        (\<forall>x. get_prop p ''perCategory'' = Inr (Some x) \<and> x \<noteq> JNull \<longrightarrow>
           get_prop v3 ''perCategory'' = Inr (Some x))"
    using v3(4) v3(5) by (simp add: c1)
  have other: "get_prop v3 k = get_prop p k"
    if "k \<noteq> ''best'' \<and> k \<noteq> ''history'' \<and> k \<noteq> ''perCategory''" for k
    using that v1(3) [of k] v2(3) [of k] v3(3) [of k] by simp
  show ?thesis
  proof (intro exI [of _ v3] conjI allI impI)
    show "loadStats_try JSON_parse text = Inr v3" by (rule run)
    show "is_object v3" by (rule v3(2))
  next
    fix k d
    assume kd: "(k, d) \<in> set [(''best'', JNull), (''history'', JArr [] []),
                            (''perCategory'', DEFAULT_BASELINE_json)]"
      and n: "get_prop p k = Inr None \<or> get_prop p k = Inr (Some JNull)"
    from kd consider "k = ''best''" "d = JNull" | "k = ''history''" "d = JArr [] []"
      | "k = ''perCategory''" "d = DEFAULT_BASELINE_json"
      by auto
    then show "get_prop v3 k = Inr (Some d)"
      using n best hist cat by cases simp_all
  next
    fix k d x
    assume kd: "(k, d) \<in> set [(''best'', JNull), (''history'', JArr [] []),
                            (''perCategory'', DEFAULT_BASELINE_json)]"
      and n: "get_prop p k = Inr (Some x) \<and> x \<noteq> JNull"
    from kd consider "k = ''best''" | "k = ''history''" | "k = ''perCategory''"
      by auto
    then show "get_prop v3 k = Inr (Some x)"
      using n best hist cat by cases simp_all
  next
    fix k
    assume "k \<noteq> ''best'' \<and> k \<noteq> ''history'' \<and> k \<noteq> ''perCategory''"
    then show "get_prop v3 k = get_prop p k" by (rule other)
  qed
qed

text \<open>
  C7, as the code has it. \<^verbatim>\<open>loadStats\<close> never throws. It returns the seeded default (which
  has the shape of the statistics) when nothing or the empty string is stored, when the
  stored text is no JSON, and when it parses to \<^verbatim>\<open>null\<close> or a primitive. When the text parses
  to an object (or array), it returns that object with \<^verbatim>\<open>best\<close>, \<^verbatim>\<open>history\<close> and
  \<^verbatim>\<open>perCategory\<close> set to \<^verbatim>\<open>null\<close>, \<^verbatim>\<open>[]\<close> and the baseline where they were missing or
  \<^verbatim>\<open>null\<close>, and everything else as stored: what is stored under these keys is not checked.
\<close>

theorem loadStats_never_throws:
  "\<exists>v. loadStats JSON_parse raw = Inr v \<and>
     stats_shaped seeded_default \<and>
     (raw = None \<or> raw = Some [] \<longrightarrow> v = seeded_default) \<and>
     (\<forall>text e. raw = Some text \<and> JSON_parse text = Inl e \<longrightarrow> v = seeded_default) \<and>
     (\<forall>text p. raw = Some text \<and> JSON_parse text = Inr p \<and> \<not> is_object p \<longrightarrow>
        v = seeded_default) \<and>
     (\<forall>text p. raw = Some text \<and> text \<noteq> [] \<and> JSON_parse text = Inr p \<and> is_object p \<longrightarrow>
        is_object v \<and>
        (\<forall>k d. (k, d) \<in> set [(''best'', JNull), (''history'', JArr [] []),
                               (''perCategory'', DEFAULT_BASELINE_json)] \<longrightarrow>
           (get_prop p k = Inr None \<or> get_prop p k = Inr (Some JNull) \<longrightarrow>
              get_prop v k = Inr (Some d)) \<and>
           (\<forall>x. get_prop p k = Inr (Some x) \<and> x \<noteq> JNull \<longrightarrow> get_prop v k = Inr (Some x))) \<and>
        (\<forall>k. k \<noteq> ''best'' \<and> k \<noteq> ''history'' \<and> k \<noteq> ''perCategory'' \<longrightarrow>
           get_prop v k = get_prop p k))"
proof (cases raw)
  case None
  then show ?thesis
    by (simp add: loadStats_def seeded_default_shaped)
next
  case (Some str)
  show ?thesis
  proof (cases "str = []")
    case True
    with Some show ?thesis
      by (simp add: loadStats_def seeded_default_shaped)
  next
    case nonempty: False
    show ?thesis
    proof (cases "JSON_parse str")
      case (Inl e)
      with Some nonempty show ?thesis
        by (simp add: loadStats_def loadStats_try_def seeded_default_shaped)
    next
      case (Inr p)
      show ?thesis
      proof (cases "is_object p")
        case False
        from loadStats_try_primitive [of JSON_parse str p, OF Inr False] obtain e where
          "loadStats_try JSON_parse str = Inl e" ..
        with Some nonempty Inr False show ?thesis
          by (simp add: loadStats_def seeded_default_shaped)
      next
        case True
        from loadStats_try_object [of JSON_parse str p, OF Inr True] obtain v where
          v: "loadStats_try JSON_parse str = Inr v"
          and rest: "is_object v \<and>
            (\<forall>k d. (k, d) \<in> set [(''best'', JNull), (''history'', JArr [] []),
                               (''perCategory'', DEFAULT_BASELINE_json)] \<longrightarrow>
               (get_prop p k = Inr None \<or> get_prop p k = Inr (Some JNull) \<longrightarrow>
                  get_prop v k = Inr (Some d)) \<and>
               (\<forall>x. get_prop p k = Inr (Some x) \<and> x \<noteq> JNull \<longrightarrow>
                  get_prop v k = Inr (Some x))) \<and>
            (\<forall>k. k \<noteq> ''best'' \<and> k \<noteq> ''history'' \<and> k \<noteq> ''perCategory'' \<longrightarrow>
               get_prop v k = get_prop p k)"
          by blast
        have "loadStats JSON_parse raw = Inr v"
          using Some nonempty v by (simp add: loadStats_def)
        with Some nonempty Inr True rest show ?thesis
          by (intro exI [of _ v]) (simp add: seeded_default_shaped)
      qed
    qed
  qed
qed

theorem loadStats_never_throws_witness:
  "loadStats (\<lambda>text. Inl SyntaxError) None = Inr seeded_default \<and>
   loadStats (\<lambda>text. Inl SyntaxError) (Some ''not json'') = Inr seeded_default \<and>
   loadStats (\<lambda>text. Inr (JNum 5)) (Some ''5'') = Inr seeded_default \<and>
   is_object (JObj [(''best'', JObj [(''score'', JNum 3), (''total'', JNum 5)])]) \<and>
   loadStats (\<lambda>text. Inr (JObj [(''best'', JObj [(''score'', JNum 3), (''total'', JNum 5)])]))
       (Some ''stored'')
     = Inr (JObj [(''best'', JObj [(''score'', JNum 3), (''total'', JNum 5)]),
                  (''history'', JArr [] []), (''perCategory'', DEFAULT_BASELINE_json)]) \<and>
   stats_shaped (JObj [(''best'', JObj [(''score'', JNum 3), (''total'', JNum 5)]),
                  (''history'', JArr [] []), (''perCategory'', DEFAULT_BASELINE_json)])"
proof -
  have a: "loadStats (\<lambda>text. Inl SyntaxError) None = Inr seeded_default"
    using loadStats_never_throws [of "\<lambda>text. Inl SyntaxError" None] by auto
  have b: "loadStats (\<lambda>text. Inl SyntaxError) (Some ''not json'') = Inr seeded_default"
    using loadStats_never_throws [of "\<lambda>text. Inl SyntaxError" "Some ''not json''"] by auto
  have c: "loadStats (\<lambda>text. Inr (JNum 5)) (Some ''5'') = Inr seeded_default"
    using loadStats_never_throws [of "\<lambda>text. Inr (JNum 5)" "Some ''5''"] by auto
  have d: "loadStats (\<lambda>text. Inr (JObj [(''best'', JObj [(''score'', JNum 3), (''total'', JNum 5)])]))
       (Some ''stored'')
     = Inr (JObj [(''best'', JObj [(''score'', JNum 3), (''total'', JNum 5)]),
                  (''history'', JArr [] []), (''perCategory'', DEFAULT_BASELINE_json)])"
    by (simp add: loadStats_def loadStats_try_def nullish_assign_def)
  have e: "stats_shaped (JObj [(''best'', JObj [(''score'', JNum 3), (''total'', JNum 5)]),
                  (''history'', JArr [] []), (''perCategory'', DEFAULT_BASELINE_json)])"
    by (simp add: stats_shaped_def DEFAULT_BASELINE_json_def)
  show ?thesis
    using a b c d e by simp
qed

theorem loadStats_never_throws_counterexample:
  "loadStats (\<lambda>text. Inr (JObj [(''history'', JNum 5)])) (Some ''stored'')
     = Inr (JObj [(''history'', JNum 5), (''best'', JNull),
                  (''perCategory'', DEFAULT_BASELINE_json)]) \<and>
   \<not> stats_shaped (JObj [(''history'', JNum 5), (''best'', JNull),
                  (''perCategory'', DEFAULT_BASELINE_json)])"
  by (simp add: loadStats_def loadStats_try_def nullish_assign_def stats_shaped_def)

end
